theory Spec2Isabelle
  imports Complex_Main "HOL-Library.Multiset"
begin

section \<open>VoteChain: the admin and voter front ends over the ElectionFactory contract\<close>

text \<open>
  The development embeds the decision logic of \<^verbatim>\<open>src/js/admin.js\<close> (AdminApp) and
  \<^verbatim>\<open>src/js/app.js\<close> (VoterApp). HTML is kept as the structured data it is built from
  (rows, cards, totals), a rejected promise or a thrown exception is an \<open>error\<close> value,
  and the deployed contract is a record of operations over an abstract chain state.
\<close>

subsection \<open>Errors and JavaScript numbers\<close>

datatype error =
    ContractError string
  | NumberOverflow
  | InvalidNumberValue
  | InvalidWindow
  | PastStart
  | UnknownElection
  | ElectionAlreadyStarted
  | NotFound

text \<open>The \<^verbatim>\<open>error.message\<close> the catch blocks print.\<close>

fun error_message :: "error \<Rightarrow> string" where
  "error_message (ContractError m) = m"
| "error_message NumberOverflow = ''Number can only safely store up to 53 bits''"
| "error_message InvalidNumberValue = ''invalid number value''"
| "error_message InvalidWindow = ''InvalidWindow''"
| "error_message PastStart = ''PastStart''"
| "error_message UnknownElection = ''UnknownElection''"
| "error_message ElectionAlreadyStarted = ''ElectionAlreadyStarted''"
| "error_message NotFound = ''NotFound''"

text \<open>
  Sequencing of steps that may throw: the first error ends the computation, as an
  exception leaves the enclosing \<^verbatim>\<open>try\<close> block.
\<close>

definition and_then :: "error + 'a \<Rightarrow> ('a \<Rightarrow> error + 'b) \<Rightarrow> error + 'b" where
  "and_then r f = (case r of Inl e \<Rightarrow> Inl e | Inr x \<Rightarrow> f x)"

text \<open>
  \<^verbatim>\<open>BN.toNumber()\<close>: the contract returns unsigned big integers; the conversion to a
  JavaScript number throws beyond 53 bits.
\<close>

definition toNumber :: "nat \<Rightarrow> error + nat" where
  "toNumber n = (if n < 2 ^ 53 then Inr n else Inl NumberOverflow)"

text \<open>
  A number that may be \<^verbatim>\<open>NaN\<close>: the form's dates are
  \<^verbatim>\<open>Math.floor(date.getTime() / 1000)\<close>, an integer or \<^verbatim>\<open>NaN\<close> (an empty date field).
  Every comparison with \<^verbatim>\<open>NaN\<close> is false.
\<close>

datatype jsnum = NaN | Finite int

fun js_less :: "jsnum \<Rightarrow> jsnum \<Rightarrow> bool" where
  "js_less (Finite a) (Finite b) = (a < b)"
| "js_less _ _ = False"

fun js_less_eq :: "jsnum \<Rightarrow> jsnum \<Rightarrow> bool" where
  "js_less_eq (Finite a) (Finite b) = (a \<le> b)"
| "js_less_eq _ _ = False"

subsection \<open>Double precision arithmetic\<close>

text \<open>
  JavaScript's \<^verbatim>\<open>+\<close>, \<^verbatim>\<open>*\<close> and \<^verbatim>\<open>/\<close> return the exact result rounded to the
  nearest binary64 number, ties to the even significand. \<open>fl\<close> is that rounding on the
  rationals, with 53 significant bits. The exponent range is not modelled: the numbers of
  this program are quotients, products and sums of integers below \<open>2 ^ 53\<close>, far from
  overflow and from the subnormal range.
\<close>

function bit_length :: "int \<Rightarrow> nat" where
  "bit_length n = (if n \<le> 0 then 0 else Suc (bit_length (n div 2)))"
  by pat_completeness auto
termination
  by (relation "measure nat") auto

declare bit_length.simps [simp del]

definition pow2 :: "int \<Rightarrow> rat" where
  "pow2 k = (if 0 \<le> k then 2 ^ nat k else 1 / 2 ^ nat (- k))"

text \<open>The exponent \<open>e\<close> of a positive number: \<open>pow2 e \<le> x < pow2 (e + 1)\<close>.\<close>

definition binade :: "rat \<Rightarrow> int" where
  "binade x =
     (if 1 \<le> x then int (bit_length \<lfloor>x\<rfloor>) - 1
      else - int (bit_length (\<lceil>1 / x\<rceil> - 1)))"

definition round_half_even :: "rat \<Rightarrow> int" where
  "round_half_even y =
     (let f = \<lfloor>y\<rfloor>; r = y - of_int f
      in if r < 1 / 2 then f else if 1 / 2 < r then f + 1
         else if even f then f else f + 1)"

definition fl :: "rat \<Rightarrow> rat" where
  "fl x =
     (if x = 0 then 0
      else let u = pow2 (binade \<bar>x\<bar> - 52)
           in sgn x * of_int (round_half_even (\<bar>x\<bar> / u)) * u)"

text \<open>\<^verbatim>\<open>totalVotes += votes\<close> on two non-negative integers held as numbers.\<close>

definition js_add :: "nat \<Rightarrow> nat \<Rightarrow> nat" where
  "js_add a b = nat \<lfloor>fl (of_nat a + of_nat b)\<rfloor>"

text \<open>
  \<^verbatim>\<open>x.toFixed(f)\<close> for \<open>0 \<le> x < 10 ^ 21\<close>: the integer \<open>n\<close> for which \<open>n / 10 ^ f\<close> is
  nearest to \<open>x\<close>, the larger one on a tie; the string returned is \<open>n\<close> in decimal with
  the point before its last \<open>f\<close> digits.
\<close>

definition toFixed :: "rat \<Rightarrow> nat \<Rightarrow> int" where
  "toFixed x f = \<lfloor>x * 10 ^ f + 1 / 2\<rfloor>"

text \<open>
  The value of the \<^verbatim>\<open>percentage\<close> variable: the number \<^verbatim>\<open>0\<close>, or the string of
  \<^verbatim>\<open>toFixed\<close>, kept as its integer and its count of fractional digits.
\<close>

datatype percentage = Number rat | Decimal int nat

fun percentage_value :: "percentage \<Rightarrow> rat" where
  "percentage_value (Number x) = x"
| "percentage_value (Decimal n f) = of_int n / 10 ^ f"

subsection \<open>Election status\<close>

datatype status = Upcoming | Active | Ended

text \<open>\<^verbatim>\<open>AdminApp.getElectionStatus\<close> returns the status with its CSS class.\<close>

definition getElectionStatus :: "int \<Rightarrow> int \<Rightarrow> int \<Rightarrow> status \<times> string" where
  "getElectionStatus startTime endTime now =
     (if now \<ge> startTime \<and> now < endTime then (Active, ''status-active'')
      else if now \<ge> endTime then (Ended, ''status-ended'')
      else (Upcoming, ''status-upcoming''))"

subsection \<open>The contract instance\<close>

text \<open>
  The deployed ElectionFactory contract is not part of the front end: it is a record of
  its operations over a chain state \<open>'s\<close>. A read returns a value or a rejection; a
  transaction also returns the next chain state. \<^verbatim>\<open>getElection\<close> answers with the
  tuple \<^verbatim>\<open>[id, name, startTime, endTime, candidateCount]\<close> and \<^verbatim>\<open>getCandidate\<close> with
  \<^verbatim>\<open>[id, name, party, voteCount]\<close>, the integers as big numbers.
\<close>

type_synonym raw_election = "nat \<times> string \<times> nat \<times> nat \<times> nat"
type_synonym raw_candidate = "nat \<times> string \<times> string \<times> nat"

record 's contract =
  createElection :: "'s \<Rightarrow> string \<Rightarrow> jsnum \<Rightarrow> jsnum \<Rightarrow> 's \<times> (error + nat)"
  addCandidate :: "'s \<Rightarrow> nat \<Rightarrow> string \<Rightarrow> string \<Rightarrow> 's \<times> (error + unit)"
  getElectionCount :: "'s \<Rightarrow> error + nat"
  getElection :: "'s \<Rightarrow> nat \<Rightarrow> error + raw_election"
  getCandidate :: "'s \<Rightarrow> nat \<Rightarrow> nat \<Rightarrow> error + raw_candidate"
  hasVoted :: "'s \<Rightarrow> nat \<Rightarrow> string \<Rightarrow> error + bool"

subsection \<open>Sorting\<close>

text \<open>
  \<^verbatim>\<open>Array.prototype.sort(compare)\<close> is a stable sort: \<open>a\<close> comes before \<open>b\<close> when
  \<open>compare a b < 0\<close>, after it when \<open>compare a b > 0\<close>, and elements that compare equal
  keep their order. For a consistent comparator the result does not depend on the
  algorithm; it is written here as a stable insertion sort.
\<close>

fun insert_sorted :: "('a \<Rightarrow> 'a \<Rightarrow> int) \<Rightarrow> 'a \<Rightarrow> 'a list \<Rightarrow> 'a list" where
  "insert_sorted compare x [] = [x]"
| "insert_sorted compare x (y # ys) =
     (if compare x y \<le> 0 then x # y # ys else y # insert_sorted compare x ys)"

definition js_sort :: "('a \<Rightarrow> 'a \<Rightarrow> int) \<Rightarrow> 'a list \<Rightarrow> 'a list" where
  "js_sort compare xs = foldr (insert_sorted compare) xs []"

subsection \<open>Candidate data and the tally\<close>

text \<open>The object \<^verbatim>\<open>{ id, name, party, votes }\<close> both front ends build per candidate.\<close>

record candidateData =
  cd_id :: nat
  cd_name :: string
  cd_party :: string
  cd_votes :: nat

text \<open>The comparator \<^verbatim>\<open>(a, b) => b.votes - a.votes\<close>; exact, both being below \<open>2 ^ 53\<close>.\<close>

definition by_votes_desc :: "candidateData \<Rightarrow> candidateData \<Rightarrow> int" where
  "by_votes_desc a b = int (cd_votes b) - int (cd_votes a)"

text \<open>
  \<^verbatim>\<open>AdminApp.getCandidatesData\<close>. The loop variable \<open>i\<close> runs from 1 to
  \<open>candidateCount\<close>; \<open>candidates\<close> and \<open>totalVotes\<close> are the loop's accumulators.
\<close>

function getCandidatesData_loop ::
  "'s contract \<Rightarrow> 's \<Rightarrow> nat \<Rightarrow> nat \<Rightarrow> nat \<Rightarrow> candidateData list \<Rightarrow> nat
     \<Rightarrow> error + (candidateData list \<times> nat)" where
  "getCandidatesData_loop inst s electionId candidateCount i candidates totalVotes =
     (if i \<le> candidateCount then
        (case getCandidate inst s electionId i of
           Inl e \<Rightarrow> Inl e
         | Inr (c0, c1, c2, c3) \<Rightarrow>
             (case toNumber c0 of
                Inl e \<Rightarrow> Inl e
              | Inr id' \<Rightarrow>
                  (case toNumber c3 of
                     Inl e \<Rightarrow> Inl e
                   | Inr votes \<Rightarrow>
                       getCandidatesData_loop inst s electionId candidateCount (i + 1)
                         (candidates @ [\<lparr>cd_id = id', cd_name = c1, cd_party = c2, cd_votes = votes\<rparr>])
                         (js_add totalVotes votes))))
      else Inr (js_sort by_votes_desc candidates, totalVotes))"
  by pat_completeness auto
termination
  by (relation "measure (\<lambda>(inst, s, electionId, candidateCount, i, candidates, totalVotes).
        Suc candidateCount - i)") auto

declare getCandidatesData_loop.simps [simp del]

definition getCandidatesData ::
  "'s contract \<Rightarrow> 's \<Rightarrow> nat \<Rightarrow> nat \<Rightarrow> error + (candidateData list \<times> nat)" where
  "getCandidatesData inst s electionId candidateCount =
     getCandidatesData_loop inst s electionId candidateCount 1 [] 0"

text \<open>
  \<^verbatim>\<open>AdminApp.displayTallyResults\<close>: one card per candidate, in the order given, with the
  percentage to one decimal.
\<close>

record tally_card =
  card_name :: string
  card_party :: string
  card_votes :: nat
  card_percentage :: percentage

definition tally_percentage :: "nat \<Rightarrow> nat \<Rightarrow> percentage" where
  "tally_percentage votes totalVotes =
     (if totalVotes > 0
      then Decimal (toFixed (fl (fl (of_nat votes / of_nat totalVotes) * 100)) 1) 1
      else Number 0)"

text \<open>The tally panel of the admin page: \<^verbatim>\<open>#tallyMessage\<close> and \<^verbatim>\<open>#tallyCards\<close>.\<close>

record tally_panel =
  tallyMessage_text :: string
  tallyMessage_shown :: bool
  tallyCards_shown :: bool
  tallyCards_title :: string
  tallyCards_cards :: "tally_card list"

definition displayTallyResults ::
  "string \<Rightarrow> candidateData list \<Rightarrow> nat \<Rightarrow> tally_panel \<Rightarrow> tally_panel" where
  "displayTallyResults electionName candidates totalVotes panel =
     panel\<lparr>tallyMessage_shown := False, tallyCards_shown := True,
       tallyCards_title := ''Live Results: '' @ electionName,
       tallyCards_cards :=
         map (\<lambda>candidate.
               \<lparr>card_name = cd_name candidate, card_party = cd_party candidate,
                card_votes = cd_votes candidate,
                card_percentage = tally_percentage (cd_votes candidate) totalVotes\<rparr>)
           candidates\<rparr>"

text \<open>
  \<^verbatim>\<open>AdminApp.updateLiveTally\<close>, with the instance and the election id already told
  apart. Every failure inside the \<^verbatim>\<open>try\<close> block is caught and reported in the panel.
\<close>

definition tally_failed :: "error \<Rightarrow> tally_panel \<Rightarrow> tally_panel" where
  "tally_failed e panel =
     panel\<lparr>tallyMessage_text := ''Error updating tally: '' @ error_message e,
       tallyMessage_shown := True, tallyCards_shown := False\<rparr>"

definition updateLiveTally :: "'s contract \<Rightarrow> 's \<Rightarrow> nat \<Rightarrow> tally_panel \<Rightarrow> tally_panel" where
  "updateLiveTally inst s id' panel =
     (case getElection inst s id' of
        Inl e \<Rightarrow> tally_failed e panel
      | Inr (e0, name, e2, e3, e4) \<Rightarrow>
          (case toNumber e4 of
             Inl e \<Rightarrow> tally_failed e panel
           | Inr candidateCount \<Rightarrow>
               if candidateCount = 0 then
                 panel\<lparr>tallyMessage_text := ''No candidates found for this election'',
                   tallyMessage_shown := True, tallyCards_shown := False\<rparr>
               else
                 (case getCandidatesData inst s id' candidateCount of
                    Inl e \<Rightarrow> tally_failed e panel
                  | Inr (candidates, totalVotes) \<Rightarrow>
                      displayTallyResults name candidates totalVotes panel)))"

text \<open>
  \<^verbatim>\<open>AdminApp.buildResultsHTML\<close>: the final-results table of the admin page, one row per
  candidate in the order fetched, and the total in the footer.
\<close>

record result_row =
  row_id :: nat
  row_name :: string
  row_party :: string
  row_votes :: nat

record results_table =
  results_name :: string
  results_startTime :: nat
  results_endTime :: nat
  results_rows :: "result_row list"
  results_totalVotes :: nat

function buildResultsHTML_loop ::
  "'s contract \<Rightarrow> 's \<Rightarrow> nat \<Rightarrow> nat \<Rightarrow> nat \<Rightarrow> result_row list \<Rightarrow> nat
     \<Rightarrow> error + (result_row list \<times> nat)" where
  "buildResultsHTML_loop inst s electionId candidateCount i html totalVotes =
     (if i \<le> candidateCount then
        (case getCandidate inst s electionId i of
           Inl e \<Rightarrow> Inl e
         | Inr (c0, c1, c2, c3) \<Rightarrow>
             (case toNumber c3 of
                Inl e \<Rightarrow> Inl e
              | Inr votes \<Rightarrow>
                  (case toNumber c0 of
                     Inl e \<Rightarrow> Inl e
                   | Inr id' \<Rightarrow>
                       buildResultsHTML_loop inst s electionId candidateCount (i + 1)
                         (html @ [\<lparr>row_id = id', row_name = c1, row_party = c2, row_votes = votes\<rparr>])
                         (js_add totalVotes votes))))
      else Inr (html, totalVotes))"
  by pat_completeness auto
termination
  by (relation "measure (\<lambda>(inst, s, electionId, candidateCount, i, html, totalVotes).
        Suc candidateCount - i)") auto

declare buildResultsHTML_loop.simps [simp del]

definition buildResultsHTML ::
  "'s contract \<Rightarrow> 's \<Rightarrow> nat \<Rightarrow> string \<Rightarrow> nat \<Rightarrow> nat \<Rightarrow> nat \<Rightarrow> error + results_table" where
  "buildResultsHTML inst s electionId name startTime endTime candidateCount =
     (case buildResultsHTML_loop inst s electionId candidateCount 1 [] 0 of
        Inl e \<Rightarrow> Inl e
      | Inr (html, totalVotes) \<Rightarrow>
          Inr \<lparr>results_name = name, results_startTime = startTime, results_endTime = endTime,
               results_rows = html, results_totalVotes = totalVotes\<rparr>)"

text \<open>
  \<^verbatim>\<open>VoterApp.viewElectionResults\<close>: the voter's results table, sorted by votes, with the
  percentage to two decimals.
\<close>

record voter_row =
  vrow_id :: nat
  vrow_name :: string
  vrow_party :: string
  vrow_votes :: nat
  vrow_percentage :: percentage

record voter_results =
  vresults_name :: string
  vresults_startTime :: nat
  vresults_endTime :: nat
  vresults_rows :: "voter_row list"
  vresults_totalVotes :: nat

definition results_percentage :: "nat \<Rightarrow> nat \<Rightarrow> percentage" where
  "results_percentage votes totalVotes =
     (if totalVotes > 0
      then Decimal (toFixed (fl (fl (of_nat votes / of_nat totalVotes) * 100)) 2) 2
      else Number 0)"

function VoterApp_viewElectionResults_loop ::
  "'s contract \<Rightarrow> 's \<Rightarrow> nat \<Rightarrow> nat \<Rightarrow> nat \<Rightarrow> candidateData list \<Rightarrow> nat
     \<Rightarrow> error + (candidateData list \<times> nat)" where
  "VoterApp_viewElectionResults_loop inst s electionId candidateCount i candidates totalVotes =
     (if i \<le> candidateCount then
        (case getCandidate inst s electionId i of
           Inl e \<Rightarrow> Inl e
         | Inr (c0, c1, c2, c3) \<Rightarrow>
             (case toNumber c0 of
                Inl e \<Rightarrow> Inl e
              | Inr id' \<Rightarrow>
                  (case toNumber c3 of
                     Inl e \<Rightarrow> Inl e
                   | Inr votes \<Rightarrow>
                       VoterApp_viewElectionResults_loop inst s electionId candidateCount (i + 1)
                         (candidates @ [\<lparr>cd_id = id', cd_name = c1, cd_party = c2, cd_votes = votes\<rparr>])
                         (js_add totalVotes votes))))
      else Inr (candidates, totalVotes))"
  by pat_completeness auto
termination
  by (relation "measure (\<lambda>(inst, s, electionId, candidateCount, i, candidates, totalVotes).
        Suc candidateCount - i)") auto

declare VoterApp_viewElectionResults_loop.simps [simp del]

definition VoterApp_viewElectionResults :: "'s contract \<Rightarrow> 's \<Rightarrow> nat \<Rightarrow> error + voter_results" where
  "VoterApp_viewElectionResults inst s electionId =
     (case getElection inst s electionId of
        Inl e \<Rightarrow> Inl e
      | Inr (e0, name, e2, e3, e4) \<Rightarrow>
          and_then (toNumber e2) (\<lambda>startTime.
          and_then (toNumber e3) (\<lambda>endTime.
          and_then (toNumber e4) (\<lambda>candidateCount.
          (case VoterApp_viewElectionResults_loop inst s electionId candidateCount 1 [] 0 of
             Inl e \<Rightarrow> Inl e
           | Inr (candidates, totalVotes) \<Rightarrow>
               Inr \<lparr>vresults_name = name, vresults_startTime = startTime,
                    vresults_endTime = endTime,
                    vresults_rows =
                      map (\<lambda>candidate.
                            \<lparr>vrow_id = cd_id candidate, vrow_name = cd_name candidate,
                             vrow_party = cd_party candidate, vrow_votes = cd_votes candidate,
                             vrow_percentage =
                               results_percentage (cd_votes candidate) totalVotes\<rparr>)
                        (js_sort by_votes_desc candidates),
                    vresults_totalVotes = totalVotes\<rparr>)))))"

subsection \<open>The voter's election list\<close>

text \<open>
  \<^verbatim>\<open>VoterApp.loadActiveElections\<close>: one row per election, with the control offered in
  its last column. The vote status is asked of the contract only for an active election.
  A row keeps the name as the contract returns it; what the page makes of it is
  \<open>row_vote_buttons\<close> below.
\<close>

datatype action = VoteNow nat | AlreadyVoted | ViewResults nat | NotStartedYet

record election_row =
  erow_id :: nat
  erow_name :: string
  erow_startTime :: nat
  erow_endTime :: nat
  erow_status :: status
  erow_statusClass :: string
  erow_action :: action

definition statusClass_of :: "status \<Rightarrow> string" where
  "statusClass_of st =
     (if st = Active then ''status-active''
      else if st = Ended then ''status-ended'' else ''status-upcoming'')"

text \<open>The body of the loop: the row of election \<open>i\<close>.\<close>

definition VoterApp_loadActiveElections_row ::
  "'s contract \<Rightarrow> 's \<Rightarrow> string \<Rightarrow> int \<Rightarrow> nat \<Rightarrow> error + election_row" where
  "VoterApp_loadActiveElections_row inst s account now i =
     (case getElection inst s i of
        Inl e \<Rightarrow> Inl e
      | Inr (e0, name, e2, e3, e4) \<Rightarrow>
          (case toNumber e0 of
             Inl e \<Rightarrow> Inl e
           | Inr id' \<Rightarrow>
               (case toNumber e2 of
                  Inl e \<Rightarrow> Inl e
                | Inr startTime \<Rightarrow>
                    (case toNumber e3 of
                       Inl e \<Rightarrow> Inl e
                     | Inr endTime \<Rightarrow>
                         if now \<ge> int startTime \<and> now < int endTime then
                           (case hasVoted inst s id' account of
                              Inl e \<Rightarrow> Inl e
                            | Inr voted \<Rightarrow>
                                Inr \<lparr>erow_id = id', erow_name = name,
                                     erow_startTime = startTime, erow_endTime = endTime,
                                     erow_status = Active,
                                     erow_statusClass = statusClass_of Active,
                                     erow_action =
                                       (if voted then AlreadyVoted else VoteNow id')\<rparr>)
                         else if now \<ge> int endTime then
                           Inr \<lparr>erow_id = id', erow_name = name,
                                erow_startTime = startTime, erow_endTime = endTime,
                                erow_status = Ended,
                                erow_statusClass = statusClass_of Ended,
                                erow_action = ViewResults id'\<rparr>
                         else
                           Inr \<lparr>erow_id = id', erow_name = name,
                                erow_startTime = startTime, erow_endTime = endTime,
                                erow_status = Upcoming,
                                erow_statusClass = statusClass_of Upcoming,
                                erow_action = NotStartedYet\<rparr>))))"












subsection \<open>Election creation\<close>

text \<open>
  The admin form: the election name, the two dates as \<^verbatim>\<open>getFormData\<close> converts them to
  seconds, the counter of candidate rows ever added, and the rows still in the page
  (\<open>None\<close> where \<^verbatim>\<open>#candidate-i\<close> is absent) with the values of their two inputs.
\<close>

record candidate_entry =
  entry_name :: string
  entry_party :: string

record admin_form =
  form_electionName :: string
  form_startDate :: jsnum
  form_endDate :: jsnum
  candidateCounter :: nat
  candidate_rows :: "nat \<Rightarrow> candidate_entry option"

record formData =
  electionName :: string
  startDate :: jsnum
  endDate :: jsnum
  candidates :: "candidate_entry list"

text \<open>\<^verbatim>\<open>AdminApp.collectCandidates\<close>; a string is truthy when it is not empty.\<close>

function collectCandidates_loop ::
  "admin_form \<Rightarrow> nat \<Rightarrow> candidate_entry list \<Rightarrow> candidate_entry list" where
  "collectCandidates_loop form i cands =
     (if i \<le> candidateCounter form then
        (case candidate_rows form i of
           None \<Rightarrow> collectCandidates_loop form (i + 1) cands
         | Some entry \<Rightarrow>
             if entry_name entry \<noteq> [] \<and> entry_party entry \<noteq> []
             then collectCandidates_loop form (i + 1)
                    (cands @ [\<lparr>entry_name = entry_name entry, entry_party = entry_party entry\<rparr>])
             else collectCandidates_loop form (i + 1) cands)
      else cands)"
  by pat_completeness auto
termination
  by (relation "measure (\<lambda>(form, i, cands). Suc (candidateCounter form) - i)") auto

declare collectCandidates_loop.simps [simp del]

definition collectCandidates :: "admin_form \<Rightarrow> candidate_entry list" where
  "collectCandidates form = collectCandidates_loop form 1 []"

definition getFormData :: "admin_form \<Rightarrow> formData" where
  "getFormData form =
     \<lparr>electionName = form_electionName form, startDate = form_startDate form,
      endDate = form_endDate form, candidates = collectCandidates form\<rparr>"

text \<open>
  \<^verbatim>\<open>AdminApp.validateFormData\<close> returns \<^verbatim>\<open>true\<close>, or sets the status message shown
  in red and returns \<^verbatim>\<open>false\<close>; \<open>now\<close> is \<^verbatim>\<open>Math.floor(Date.now() / 1000)\<close>.
\<close>

datatype validation = Accepted | Refused string

definition validateFormData :: "formData \<Rightarrow> int \<Rightarrow> validation" where
  "validateFormData fd now =
     (if js_less (startDate fd) (Finite now) then
        Refused ''Start date must be in the future''
      else if js_less_eq (endDate fd) (startDate fd) then
        Refused ''End date must be after start date''
      else if length (candidates fd) < 2 then
        Refused ''Please add at least two candidates for the election''
      else Accepted)"

text \<open>The transactions the creation flow sends, in the order sent.\<close>

datatype contract_call =
    CreateElection string jsnum jsnum
  | AddCandidate nat string string

text \<open>
  \<^verbatim>\<open>AdminApp.addCandidatesToElection\<close>: each \<^verbatim>\<open>addCandidate\<close> is awaited before the
  next is sent; a rejection leaves the loop with the candidates added so far on the chain.
\<close>

function addCandidatesToElection_loop ::
  "'s contract \<Rightarrow> 's \<Rightarrow> nat \<Rightarrow> candidate_entry list \<Rightarrow> nat \<Rightarrow> contract_call list
     \<Rightarrow> 's \<times> contract_call list \<times> (error + unit)" where
  "addCandidatesToElection_loop inst s electionId cands i calls =
     (if i < length cands then
        (let candidate = cands ! i;
             sent = calls @ [AddCandidate electionId (entry_name candidate) (entry_party candidate)]
         in case addCandidate inst s electionId (entry_name candidate) (entry_party candidate) of
              (s', Inl e) \<Rightarrow> (s', sent, Inl e)
            | (s', Inr u) \<Rightarrow> addCandidatesToElection_loop inst s' electionId cands (i + 1) sent)
      else (s, calls, Inr ()))"
  by pat_completeness auto
termination
  by (relation "measure (\<lambda>(inst, s, electionId, cands, i, calls). length cands - i)") auto

declare addCandidatesToElection_loop.simps [simp del]

definition addCandidatesToElection ::
  "'s contract \<Rightarrow> 's \<Rightarrow> nat \<Rightarrow> candidate_entry list
     \<Rightarrow> 's \<times> contract_call list \<times> (error + unit)" where
  "addCandidatesToElection inst s electionId cands =
     addCandidatesToElection_loop inst s electionId cands 0 []"

text \<open>
  \<^verbatim>\<open>AdminApp.createElection\<close> with \<^verbatim>\<open>createElectionOnBlockchain\<close> inlined: the chain
  state it leaves, the transactions it sent, and how it ended. The election id is read
  from the event of the creating transaction. The reloading of the election list after a
  success only reads the chain.
\<close>

datatype outcome = Rejected string | Failed error | Created nat

definition AdminApp_createElection ::
  "'s contract \<Rightarrow> 's \<Rightarrow> admin_form \<Rightarrow> int \<Rightarrow> 's \<times> contract_call list \<times> outcome" where
  "AdminApp_createElection inst s form now =
     (let fd = getFormData form in
      case validateFormData fd now of
        Refused message \<Rightarrow> (s, [], Rejected message)
      | Accepted \<Rightarrow>
          (let sent = [CreateElection (electionName fd) (startDate fd) (endDate fd)] in
           case createElection inst s (electionName fd) (startDate fd) (endDate fd) of
             (s1, Inl e) \<Rightarrow> (s1, sent, Failed e)
           | (s1, Inr logged) \<Rightarrow>
               (case toNumber logged of
                  Inl e \<Rightarrow> (s1, sent, Failed e)
                | Inr electionId \<Rightarrow>
                    (case addCandidatesToElection inst s1 electionId (candidates fd) of
                       (s2, added, Inl e) \<Rightarrow> (s2, sent @ added, Failed e)
                     | (s2, added, Inr u) \<Rightarrow> (s2, sent @ added, Created electionId)))))"

subsection \<open>The ledger behind the contract\<close>

text \<open>
  Modelled from the spec: the Ledger Store of section 4.1, which stands for the
  ElectionFactory contract; its Solidity source is not among the front end's files.
  Elections and candidates are numbered from 1 in the order they were added; the block
  time is the contract's clock.
\<close>

record ledger_candidate =
  lc_name :: string
  lc_party :: string
  lc_voteCount :: nat

record ledger_election =
  le_name :: string
  le_startTime :: nat
  le_endTime :: nat
  le_candidates :: "ledger_candidate list"
  le_voters :: "string list"

record ledger =
  elections :: "ledger_election list"
  blockTime :: nat

definition ledger_createElection ::
  "ledger \<Rightarrow> string \<Rightarrow> nat \<Rightarrow> nat \<Rightarrow> error + (ledger \<times> nat)" where
  "ledger_createElection L name startTime endTime =
     (if endTime \<le> startTime then Inl InvalidWindow
      else if startTime \<le> blockTime L then Inl PastStart
      else Inr (L\<lparr>elections := elections L @
                   [\<lparr>le_name = name, le_startTime = startTime, le_endTime = endTime,
                     le_candidates = [], le_voters = []\<rparr>]\<rparr>,
                Suc (length (elections L))))"

definition ledger_addCandidate ::
  "ledger \<Rightarrow> nat \<Rightarrow> string \<Rightarrow> string \<Rightarrow> error + (ledger \<times> nat)" where
  "ledger_addCandidate L electionId name party =
     (if electionId = 0 \<or> length (elections L) < electionId then Inl UnknownElection
      else
        (let el = elections L ! (electionId - 1) in
         if le_startTime el \<le> blockTime L then Inl ElectionAlreadyStarted
         else Inr (L\<lparr>elections := (elections L)
                      [electionId - 1 := el\<lparr>le_candidates := le_candidates el @
                         [\<lparr>lc_name = name, lc_party = party, lc_voteCount = 0\<rparr>]\<rparr>]\<rparr>,
                   Suc (length (le_candidates el)))))"

definition ledger_getElectionCount :: "ledger \<Rightarrow> nat" where
  "ledger_getElectionCount L = length (elections L)"

definition ledger_getElection :: "ledger \<Rightarrow> nat \<Rightarrow> error + raw_election" where
  "ledger_getElection L electionId =
     (if electionId = 0 \<or> length (elections L) < electionId then Inl NotFound
      else
        (let el = elections L ! (electionId - 1) in
         Inr (electionId, le_name el, le_startTime el, le_endTime el,
              length (le_candidates el))))"

definition ledger_getCandidate :: "ledger \<Rightarrow> nat \<Rightarrow> nat \<Rightarrow> error + raw_candidate" where
  "ledger_getCandidate L electionId candidateId =
     (if electionId = 0 \<or> length (elections L) < electionId then Inl NotFound
      else
        (let cs = le_candidates (elections L ! (electionId - 1)) in
         if candidateId = 0 \<or> length cs < candidateId then Inl NotFound
         else
           (let c = cs ! (candidateId - 1) in
            Inr (candidateId, lc_name c, lc_party c, lc_voteCount c))))"

definition ledger_hasVoted :: "ledger \<Rightarrow> nat \<Rightarrow> string \<Rightarrow> bool" where
  "ledger_hasVoted L electionId voter =
     (\<not> (electionId = 0 \<or> length (elections L) < electionId) \<and>
      voter \<in> set (le_voters (elections L ! (electionId - 1))))"

text \<open>
  The ledger as a contract instance. A number sent where the contract expects an
  unsigned integer must be one; every accepted transaction moves the block time on by
  \<open>dt\<close> seconds.
\<close>

fun as_uint :: "jsnum \<Rightarrow> error + nat" where
  "as_uint NaN = Inl InvalidNumberValue"
| "as_uint (Finite n) = (if n < 0 then Inl InvalidNumberValue else Inr (nat n))"

definition mined :: "nat \<Rightarrow> ledger \<Rightarrow> ledger" where
  "mined dt L = L\<lparr>blockTime := blockTime L + dt\<rparr>"

definition ledger_contract :: "nat \<Rightarrow> ledger contract" where
  "ledger_contract dt =
     \<lparr>createElection = (\<lambda>L name startTime endTime.
        case as_uint startTime of
          Inl e \<Rightarrow> (L, Inl e)
        | Inr st \<Rightarrow>
            (case as_uint endTime of
               Inl e \<Rightarrow> (L, Inl e)
             | Inr en \<Rightarrow>
                 (case ledger_createElection L name st en of
                    Inl e \<Rightarrow> (L, Inl e)
                  | Inr (L', electionId) \<Rightarrow> (mined dt L', Inr electionId)))),
      addCandidate = (\<lambda>L electionId name party.
        case ledger_addCandidate L electionId name party of
          Inl e \<Rightarrow> (L, Inl e)
        | Inr (L', candidateId) \<Rightarrow> (mined dt L', Inr ())),
      getElectionCount = (\<lambda>L. Inr (ledger_getElectionCount L)),
      getElection = ledger_getElection,
      getCandidate = ledger_getCandidate,
      hasVoted = (\<lambda>L electionId voter. Inr (ledger_hasVoted L electionId voter))\<rparr>"

subsection \<open>Notions the properties are stated with\<close>

text \<open>
  A list is ranked when it descends by votes and, among equal votes, ascends by id.
\<close>

definition ranked_by :: "('a \<Rightarrow> nat) \<Rightarrow> ('a \<Rightarrow> nat) \<Rightarrow> 'a list \<Rightarrow> bool" where
  "ranked_by votes ident xs =
     sorted_wrt (\<lambda>a b. votes a > votes b \<or> (votes a = votes b \<and> ident a < ident b)) xs"

text \<open>The row of the final-results table that shows a candidate.\<close>

definition row_of :: "candidateData \<Rightarrow> result_row" where
  "row_of c = \<lparr>row_id = cd_id c, row_name = cd_name c, row_party = cd_party c, row_votes = cd_votes c\<rparr>"

text \<open>
  A ledger to run the front ends on: an election with three candidates and votes cast,
  and an election without candidates.
\<close>

definition demo_ledger :: ledger where
  "demo_ledger =
     \<lparr>elections =
        [\<lparr>le_name = ''Board Election'', le_startTime = 100, le_endTime = 200,
          le_candidates =
            [\<lparr>lc_name = ''Ada'', lc_party = ''Red'', lc_voteCount = 2\<rparr>,
             \<lparr>lc_name = ''Bob'', lc_party = ''Blue'', lc_voteCount = 5\<rparr>,
             \<lparr>lc_name = ''Cy'', lc_party = ''Green'', lc_voteCount = 2\<rparr>],
          le_voters = [''0xa1'']\<rparr>,
         \<lparr>le_name = ''Empty Election'', le_startTime = 300, le_endTime = 400,
          le_candidates = [], le_voters = []\<rparr>],
      blockTime = 150\<rparr>"

text \<open>The entry a form row contributes: itself when complete, nothing otherwise.\<close>

definition complete_entries :: "admin_form \<Rightarrow> nat \<Rightarrow> candidate_entry list" where
  "complete_entries form i =
     (case candidate_rows form i of
        None \<Rightarrow> []
      | Some entry \<Rightarrow>
          if entry_name entry \<noteq> [] \<and> entry_party entry \<noteq> [] then [entry] else [])"

text \<open>The transaction that adds an entry, and the candidate the ledger stores for it.\<close>

definition call_of :: "nat \<Rightarrow> candidate_entry \<Rightarrow> contract_call" where
  "call_of electionId c = AddCandidate electionId (entry_name c) (entry_party c)"

definition ledger_candidate_of :: "candidate_entry \<Rightarrow> ledger_candidate" where
  "ledger_candidate_of c = \<lparr>lc_name = entry_name c, lc_party = entry_party c, lc_voteCount = 0\<rparr>"

text \<open>
  A form to run the creation flow on: rows 1 and 4 are complete, row 2 was removed and
  row 3 has no party.
\<close>

definition demo_form :: admin_form where
  "demo_form =
     \<lparr>form_electionName = ''Council'', form_startDate = Finite 1000, form_endDate = Finite 2000,
      candidateCounter = 4,
      candidate_rows = (\<lambda>i.
        if i = 1 then Some \<lparr>entry_name = ''Dee'', entry_party = ''Red''\<rparr>
        else if i = 3 then Some \<lparr>entry_name = ''Eli'', entry_party = ''''\<rparr>
        else if i = 4 then Some \<lparr>entry_name = ''Fay'', entry_party = ''Blue''\<rparr>
        else None)\<rparr>"

text \<open>A listed candidate is read from the contract when \<^verbatim>\<open>getCandidate\<close> answers its id with
  exactly its fields.\<close>

definition read_from :: "'s contract \<Rightarrow> 's \<Rightarrow> nat \<Rightarrow> candidateData \<Rightarrow> bool" where
  "read_from inst s electionId c =
     (getCandidate inst s electionId (cd_id c) =
        Inr (cd_id c, cd_name c, cd_party c, cd_votes c))"

text \<open>
  A ledger with one vote out of three, and an election whose candidates have no votes;
  a tally panel before anything is displayed.
\<close>

definition small_ledger :: ledger where
  "small_ledger =
     \<lparr>elections =
        [\<lparr>le_name = ''Chair'', le_startTime = 100, le_endTime = 200,
          le_candidates =
            [\<lparr>lc_name = ''Gus'', lc_party = ''Red'', lc_voteCount = 1\<rparr>,
             \<lparr>lc_name = ''Hal'', lc_party = ''Blue'', lc_voteCount = 2\<rparr>],
          le_voters = [''0xa1'', ''0xa2'', ''0xa3'']\<rparr>,
         \<lparr>le_name = ''Treasurer'', le_startTime = 100, le_endTime = 200,
          le_candidates =
            [\<lparr>lc_name = ''Ida'', lc_party = ''Red'', lc_voteCount = 0\<rparr>,
             \<lparr>lc_name = ''Jon'', lc_party = ''Blue'', lc_voteCount = 0\<rparr>],
          le_voters = []\<rparr>],
      blockTime = 150\<rparr>"

definition blank_panel :: tally_panel where
  "blank_panel =
     \<lparr>tallyMessage_text = '''', tallyMessage_shown = True, tallyCards_shown = False,
      tallyCards_title = '''', tallyCards_cards = []\<rparr>"



section \<open>Properties\<close>

subsection \<open>Rounding to double precision\<close>

lemma bit_length_bounds:
  "0 < n \<Longrightarrow> 2 ^ (bit_length n - 1) \<le> n \<and> n < 2 ^ bit_length n"
proof (induction n rule: bit_length.induct)
  case (1 n)
  have bl: "bit_length n = Suc (bit_length (n div 2))"
    using "1.prems" by (subst bit_length.simps) simp
  show ?case
  proof (cases "n div 2 \<le> 0")
    case True
    then have "n = 1" using "1.prems" by linarith
    moreover have "bit_length (n div 2) = 0"
      using True by (subst bit_length.simps) simp
    ultimately show ?thesis using bl by simp
  next
    case False
    then have pos: "0 < n div 2" by simp
    have nn: "\<not> n \<le> 0" using "1.prems" by simp
    from "1.IH" [OF nn pos]
    have lo: "2 ^ (bit_length (n div 2) - 1) \<le> n div 2"
      and hi: "n div 2 < 2 ^ bit_length (n div 2)" by simp_all
    have "0 < bit_length (n div 2)"
      using pos by (subst bit_length.simps) simp
    then have k: "bit_length (n div 2) = Suc (bit_length (n div 2) - 1)"
      by simp
    have "(2::int) ^ (bit_length n - 1) = 2 * 2 ^ (bit_length (n div 2) - 1)"
      unfolding bl using k by (metis diff_Suc_1 power_Suc)
    also have "\<dots> \<le> 2 * (n div 2)" using lo by simp
    also have "\<dots> \<le> n" by linarith
    finally have 1: "(2::int) ^ (bit_length n - 1) \<le> n" .
    have "n < 2 * (n div 2 + 1)" by presburger
    also have "\<dots> \<le> 2 * 2 ^ bit_length (n div 2)" using hi by simp
    also have "\<dots> = 2 ^ bit_length n" unfolding bl by simp
    finally have 2: "n < 2 ^ bit_length n" .
    from 1 2 show ?thesis by simp
  qed
qed

lemma pow2_pos: "0 < pow2 k"
  by (simp add: pow2_def)

lemma pow2_add: "pow2 (a + int b) = pow2 a * 2 ^ b"
proof (cases "0 \<le> a")
  case True
  then show ?thesis by (simp add: pow2_def nat_add_distrib power_add)
next
  case False
  show ?thesis
  proof (cases "0 \<le> a + int b")
    case True
    then have "b = nat (- a) + nat (a + int b)" using False by linarith
    then have "(2::rat) ^ b = 2 ^ nat (- a) * 2 ^ nat (a + int b)"
      by (metis power_add)
    then show ?thesis using False True by (simp add: pow2_def)
  next
    case F2: False
    then have "nat (- a) = nat (- (a + int b)) + b" using False by linarith
    then have "(2::rat) ^ nat (- a) = 2 ^ nat (- (a + int b)) * 2 ^ b"
      by (metis power_add)
    then show ?thesis using False F2 by (simp add: pow2_def)
  qed
qed

lemma pow2_sub52: "pow2 (e - 52) = pow2 e / 2 ^ 52"
  using pow2_add [of "e - 52" 52] by simp

lemma pow2_binade_le: "0 < x \<Longrightarrow> pow2 (binade x) \<le> x"
proof (cases "1 \<le> x")
  case True
  then have f: "0 < \<lfloor>x\<rfloor>" by simp
  from bit_length_bounds [OF f] have lo: "2 ^ (bit_length \<lfloor>x\<rfloor> - 1) \<le> \<lfloor>x\<rfloor>" by simp
  have "0 < bit_length \<lfloor>x\<rfloor>"
    using f by (subst bit_length.simps) simp
  then have "pow2 (binade x) = 2 ^ (bit_length \<lfloor>x\<rfloor> - 1)"
    using True by (simp add: binade_def pow2_def nat_diff_distrib')
  also have "\<dots> = rat_of_int (2 ^ (bit_length \<lfloor>x\<rfloor> - 1))" by simp
  also have "\<dots> \<le> rat_of_int \<lfloor>x\<rfloor>" using lo by (simp only: of_int_le_iff)
  also have "\<dots> \<le> x" by simp
  finally show ?thesis .
next
  case False
  assume x: "0 < x"
  let ?m = "\<lceil>1 / x\<rceil> - 1"
  have "1 < 1 / x" using False x by simp
  then have m: "0 < ?m" by linarith
  from bit_length_bounds [OF m] have hi: "?m < 2 ^ bit_length ?m" by simp
  then have "\<lceil>1 / x\<rceil> \<le> 2 ^ bit_length ?m" by simp
  then have "1 / x \<le> rat_of_int (2 ^ bit_length ?m)"
    by (simp only: ceiling_le_iff)
  then have "1 / x \<le> 2 ^ bit_length ?m" by simp
  then have "1 / 2 ^ bit_length ?m \<le> x"
    using x by (simp add: field_simps)
  moreover have "pow2 (binade x) = 1 / 2 ^ bit_length ?m"
    using False by (simp add: binade_def pow2_def)
  ultimately show ?thesis by simp
qed

lemma round_half_even_error: "\<bar>of_int (round_half_even y) - y\<bar> \<le> 1 / 2"
proof -
  have "of_int \<lfloor>y\<rfloor> \<le> y" "y < of_int \<lfloor>y\<rfloor> + 1" by linarith+
  then show ?thesis
    by (auto simp: round_half_even_def Let_def)
qed

lemma round_half_even_of_int: "round_half_even (of_int m) = m"
  by (simp add: round_half_even_def)

lemma round_half_even_nonneg: "0 \<le> y \<Longrightarrow> 0 \<le> round_half_even y"
  by (auto simp: round_half_even_def Let_def)

lemma fl_error: "0 \<le> x \<Longrightarrow> \<bar>fl x - x\<bar> \<le> x / 2 ^ 53"
proof (cases "x = 0")
  case True
  then show ?thesis by (simp add: fl_def)
next
  case False
  assume "0 \<le> x"
  with False have x: "0 < x" by simp
  define u where "u = pow2 (binade x - 52)"
  have u: "0 < u" by (simp add: u_def pow2_pos)
  have f: "fl x = of_int (round_half_even (x / u)) * u"
    using x by (simp add: fl_def u_def Let_def)
  have "fl x - x = (of_int (round_half_even (x / u)) - x / u) * u"
    using u unfolding f by (simp add: left_diff_distrib)
  then have "\<bar>fl x - x\<bar> = \<bar>of_int (round_half_even (x / u)) - x / u\<bar> * \<bar>u\<bar>"
    by (simp only: abs_mult)
  also have "\<dots> = \<bar>of_int (round_half_even (x / u)) - x / u\<bar> * u"
    using u by simp
  also have "\<dots> \<le> 1 / 2 * u"
    using round_half_even_error [of "x / u"] u by (simp only: mult_le_cancel_right_pos)
  also have "\<dots> = pow2 (binade x) / 2 ^ 53"
    by (simp add: u_def pow2_sub52)
  also have "\<dots> \<le> x / 2 ^ 53"
    using pow2_binade_le [OF x] by (simp add: divide_right_mono)
  finally show ?thesis .
qed

lemma fl_nonneg: "0 \<le> x \<Longrightarrow> 0 \<le> fl x"
proof (cases "x = 0")
  case True
  then show ?thesis by (simp add: fl_def)
next
  case False
  assume "0 \<le> x"
  with False have x: "0 < x" by simp
  have "0 \<le> round_half_even (x / pow2 (binade x - 52))"
    using x pow2_pos [of "binade x - 52"] by (intro round_half_even_nonneg) simp
  then show ?thesis
    using x pow2_pos [of "binade x - 52"] by (simp add: fl_def Let_def)
qed

lemma fl_of_int: "0 \<le> n \<Longrightarrow> n < 2 ^ 53 \<Longrightarrow> fl (of_int n) = of_int n"
proof (cases "n = 0")
  case True
  then show ?thesis by (simp add: fl_def)
next
  case False
  assume "0 \<le> n" and lt: "n < 2 ^ 53"
  with False have n: "0 < n" by simp
  define k where "k = bit_length n"
  from bit_length_bounds [OF n] have "2 ^ (k - 1) \<le> n" by (simp add: k_def)
  with lt have "(2::int) ^ (k - 1) < 2 ^ 53" by linarith
  then have "k - 1 < 53" by (rule power_less_imp_less_exp [rotated]) simp
  then have k53: "k \<le> 53" by simp
  have k0: "0 < k"
    using n unfolding k_def by (subst bit_length.simps) simp
  define d where "d = 53 - k"
  have b: "binade (of_int n) = int k - 1"
    using n by (simp add: binade_def k_def)
  have "binade (of_int n) - 52 + int d = 0"
    using k53 k0 by (simp add: b d_def)
  then have "pow2 (binade (of_int n) - 52) * 2 ^ d = 1"
    using pow2_add [of "binade (of_int n) - 52" d] by (simp add: pow2_def)
  then have u: "pow2 (binade (of_int n) - 52) = 1 / 2 ^ d"
    by (simp add: field_simps)
  have "rat_of_int n / (1 / 2 ^ d) = rat_of_int (n * 2 ^ d)" by simp
  then have "round_half_even (rat_of_int n / (1 / 2 ^ d)) = n * 2 ^ d"
    by (simp only: round_half_even_of_int)
  then show ?thesis
    using n by (simp add: fl_def Let_def u)
qed

lemma js_add_exact: "a + b < 2 ^ 53 \<Longrightarrow> js_add a b = a + b"
proof -
  assume "a + b < 2 ^ 53"
  then have "int (a + b) < 2 ^ 53" by (metis of_nat_less_numeral_power_cancel_iff)
  then have "fl (of_int (int (a + b))) = of_int (int (a + b))"
    by (intro fl_of_int) simp_all
  then show ?thesis by (simp add: js_add_def)
qed

subsection \<open>Sorting and the fetch loops\<close>

lemma and_then_simps [simp]:
  "and_then (Inl e) f = Inl e" "and_then (Inr x) f = f x"
  by (simp_all add: and_then_def)

lemma set_insert_sorted: "set (insert_sorted cmp x ys) = insert x (set ys)"
  by (induction ys) auto

lemma mset_insert_sorted: "mset (insert_sorted cmp x ys) = add_mset x (mset ys)"
  by (induction ys) auto

lemma mset_js_sort: "mset (js_sort cmp xs) = mset xs"
  by (induction xs) (auto simp: js_sort_def mset_insert_sorted)

lemma set_js_sort: "set (js_sort cmp xs) = set xs"
  using mset_js_sort [of cmp xs] by (metis set_mset_mset)

lemma length_js_sort: "length (js_sort cmp xs) = length xs"
  using mset_js_sort [of cmp xs] by (metis size_mset)

lemma ranked_insert_sorted:
  "ranked_by cd_votes cd_id ys \<Longrightarrow> \<forall>y\<in>set ys. cd_id x < cd_id y
     \<Longrightarrow> ranked_by cd_votes cd_id (insert_sorted by_votes_desc x ys)"
proof (induction ys)
  case Nil
  then show ?case by (simp add: ranked_by_def)
next
  case (Cons y ys)
  show ?case
  proof (cases "by_votes_desc x y \<le> 0")
    case True
    then have "cd_votes y \<le> cd_votes x" by (simp add: by_votes_desc_def)
    with Cons.prems show ?thesis using True
      by (fastforce simp: ranked_by_def)
  next
    case False
    then have "cd_votes x < cd_votes y" by (simp add: by_votes_desc_def)
    with Cons show ?thesis using False
      by (auto simp: ranked_by_def set_insert_sorted)
  qed
qed

lemma ranked_js_sort:
  "sorted_wrt (<) (map cd_id xs) \<Longrightarrow> ranked_by cd_votes cd_id (js_sort by_votes_desc xs)"
proof (induction xs)
  case Nil
  then show ?case by (simp add: js_sort_def ranked_by_def)
next
  case (Cons x xs)
  then have "ranked_by cd_votes cd_id (js_sort by_votes_desc xs)" by simp
  moreover have "\<forall>y\<in>set (js_sort by_votes_desc xs). cd_id x < cd_id y"
    using Cons.prems by (auto simp: set_js_sort)
  ultimately have "ranked_by cd_votes cd_id (insert_sorted by_votes_desc x (js_sort by_votes_desc xs))"
    by (rule ranked_insert_sorted)
  then show ?case by (simp add: js_sort_def)
qed

lemma js_sort_sorted:
  "sorted_wrt (\<lambda>a b. cd_votes b \<le> cd_votes a) xs \<Longrightarrow> js_sort by_votes_desc xs = xs"
proof (induction xs)
  case Nil
  then show ?case by (simp add: js_sort_def)
next
  case (Cons x xs)
  then have IH: "js_sort by_votes_desc xs = xs" by simp
  have "insert_sorted by_votes_desc x xs = x # xs"
    using Cons.prems by (cases xs) (simp_all add: by_votes_desc_def)
  then show ?case using IH by (simp add: js_sort_def)
qed

text \<open>The sort is what \<^verbatim>\<open>Array.prototype.sort\<close> promises: sorted, and stable.\<close>

lemma sorted_insert_sorted:
  "sorted_wrt (\<lambda>a b. cd_votes b \<le> cd_votes a) ys \<Longrightarrow>
   sorted_wrt (\<lambda>a b. cd_votes b \<le> cd_votes a) (insert_sorted by_votes_desc x ys)"
  by (induction ys) (auto simp: set_insert_sorted by_votes_desc_def)

lemma sorted_js_sort:
  "sorted_wrt (\<lambda>a b. cd_votes b \<le> cd_votes a) (js_sort by_votes_desc xs)"
proof (induction xs)
  case Nil
  show ?case by (simp add: js_sort_def)
next
  case (Cons x xs)
  from sorted_insert_sorted [OF Cons.IH, of x] show ?case
    by (simp add: js_sort_def)
qed

lemma filter_insert_sorted:
  "sorted_wrt (\<lambda>a b. cd_votes b \<le> cd_votes a) ys \<Longrightarrow>
   filter (\<lambda>c. cd_votes c = v) (insert_sorted by_votes_desc x ys) =
     (if cd_votes x = v then x # filter (\<lambda>c. cd_votes c = v) ys
      else filter (\<lambda>c. cd_votes c = v) ys)"
  by (induction ys) (auto simp: by_votes_desc_def)

lemma js_sort_stable:
  "filter (\<lambda>c. cd_votes c = v) (js_sort by_votes_desc xs) = filter (\<lambda>c. cd_votes c = v) xs"
proof (induction xs)
  case Nil
  show ?case by (simp add: js_sort_def)
next
  case (Cons x xs)
  have "filter (\<lambda>c. cd_votes c = v) (insert_sorted by_votes_desc x (js_sort by_votes_desc xs)) =
     (if cd_votes x = v then x # filter (\<lambda>c. cd_votes c = v) (js_sort by_votes_desc xs)
      else filter (\<lambda>c. cd_votes c = v) (js_sort by_votes_desc xs))"
    by (rule filter_insert_sorted [OF sorted_js_sort])
  then show ?case
    using Cons.IH by (simp add: js_sort_def)
qed

text \<open>The three fetch loops read the same candidates.\<close>

lemma getCandidatesData_loop_eq:
  "getCandidatesData_loop inst s e n i acc tot =
     (case VoterApp_viewElectionResults_loop inst s e n i acc tot of
        Inl err \<Rightarrow> Inl err
      | Inr (cs, t) \<Rightarrow> Inr (js_sort by_votes_desc cs, t))"
proof (induction inst s e n i acc tot rule: VoterApp_viewElectionResults_loop.induct)
  case (1 inst s e n i acc tot)
  show ?case
    apply (subst getCandidatesData_loop.simps)
    apply (subst VoterApp_viewElectionResults_loop.simps)
    using "1.IH" by (simp split: sum.splits prod.splits)
qed

lemma row_of_make:
  "row_of \<lparr>cd_id = a, cd_name = b, cd_party = c, cd_votes = d\<rparr> =
     \<lparr>row_id = a, row_name = b, row_party = c, row_votes = d\<rparr>"
  by (simp add: row_of_def)

lemma toNumber_error: "toNumber a = Inl e \<Longrightarrow> e = NumberOverflow"
  by (simp add: toNumber_def split: if_splits)

lemma buildResultsHTML_loop_eq:
  "buildResultsHTML_loop inst s e n i (map row_of acc) tot =
     (case VoterApp_viewElectionResults_loop inst s e n i acc tot of
        Inl err \<Rightarrow> Inl err
      | Inr (cs, t) \<Rightarrow> Inr (map row_of cs, t))"
proof (induction inst s e n i acc tot rule: VoterApp_viewElectionResults_loop.induct)
  case (1 inst s e n i acc tot)
  show ?case
  proof (cases "i \<le> n")
    case False
    then show ?thesis
      by (subst buildResultsHTML_loop.simps, subst VoterApp_viewElectionResults_loop.simps) simp
  next
    case True
    show ?thesis
    proof (cases "getCandidate inst s e i")
      case (Inl err)
      then show ?thesis
        by (subst buildResultsHTML_loop.simps, subst VoterApp_viewElectionResults_loop.simps) simp
    next
      case (Inr c)
      obtain c0 c1 c2 c3 where c: "c = (c0, c1, c2, c3)" by (cases c)
      note g = Inr [unfolded c]
      show ?thesis
      proof (cases "toNumber c0")
        case e0: (Inl err0)
        show ?thesis
          using toNumber_error [OF e0]
          by (subst buildResultsHTML_loop.simps, subst VoterApp_viewElectionResults_loop.simps)
            (auto simp: True g e0 split: sum.splits dest: toNumber_error)
      next
        case t0: (Inr id')
        show ?thesis
        proof (cases "toNumber c3")
          case e3: (Inl err3)
          show ?thesis
            by (subst buildResultsHTML_loop.simps, subst VoterApp_viewElectionResults_loop.simps)
              (simp add: True g t0 e3)
        next
          case t3: (Inr votes)
          let ?c = "\<lparr>cd_id = id', cd_name = c1, cd_party = c2, cd_votes = votes\<rparr>"
          show ?thesis
            using "1.IH" [OF True g refl refl refl t0 t3]
            by (subst buildResultsHTML_loop.simps, subst VoterApp_viewElectionResults_loop.simps)
              (simp add: True g t0 t3 row_of_make)
        qed
      qed
    qed
  qed
qed

lemma foldl_js_add_exact:
  "tot + sum_list vs < 2 ^ 53 \<Longrightarrow> foldl js_add tot vs = tot + sum_list vs"
proof (induction vs arbitrary: tot)
  case Nil
  show ?case by simp
next
  case (Cons v vs)
  have "tot + v < 2 ^ 53" using Cons.prems by simp
  then have a: "js_add tot v = tot + v" by (rule js_add_exact)
  have "foldl js_add (tot + v) vs = (tot + v) + sum_list vs"
    using Cons.prems by (intro Cons.IH) (simp add: add.assoc)
  then show ?case by (simp add: a add.assoc)
qed

lemma VoterApp_viewElectionResults_loop_reads:
  "1 \<le> i \<Longrightarrow> \<forall>i\<in>{1..n}. \<exists>name party votes.
         getCandidate inst s e i = Inr (i, name, party, votes) \<and> votes < 2 ^ 53
    \<Longrightarrow> n < 2 ^ 53 \<Longrightarrow>
   \<exists>cs t. VoterApp_viewElectionResults_loop inst s e n i acc tot = Inr (acc @ cs, t)
      \<and> map cd_id cs = [i..<Suc n]
      \<and> (\<forall>c\<in>set cs. read_from inst s e c)
      \<and> t = foldl js_add tot (map cd_votes cs)"
proof (induction inst s e n i acc tot rule: VoterApp_viewElectionResults_loop.induct)
  case (1 inst s e n i acc tot)
  show ?case
  proof (cases "i \<le> n")
    case False
    then show ?thesis
      by (subst VoterApp_viewElectionResults_loop.simps) simp
  next
    case True
    have "i \<in> {1..n}" using True "1.prems"(1) by simp
    from bspec [OF "1.prems"(2) this] obtain name party votes where
      g: "getCandidate inst s e i = Inr (i, name, party, votes)" and v: "votes < 2 ^ 53"
      by blast
    have i: "i < 2 ^ 53" using True "1.prems"(3) by (rule le_less_trans)
    have ti: "toNumber i = Inr i" and tv: "toNumber votes = Inr votes"
      using i v by (simp_all add: toNumber_def)
    let ?c = "\<lparr>cd_id = i, cd_name = name, cd_party = party, cd_votes = votes\<rparr>"
    from "1.IH" [OF True g refl refl refl ti tv _ "1.prems"(2) "1.prems"(3)]
    obtain cs t where
      r: "VoterApp_viewElectionResults_loop inst s e n (i + 1) (acc @ [?c]) (js_add tot votes)
            = Inr ((acc @ [?c]) @ cs, t)"
      and m: "map cd_id cs = [i + 1..<Suc n]"
      and f: "\<forall>c\<in>set cs. read_from inst s e c"
      and t: "t = foldl js_add (js_add tot votes) (map cd_votes cs)"
      by auto
    have "VoterApp_viewElectionResults_loop inst s e n i acc tot = Inr (acc @ (?c # cs), t)"
      using r by (subst VoterApp_viewElectionResults_loop.simps) (simp add: True g ti tv)
    moreover have "map cd_id (?c # cs) = [i..<Suc n]"
      using m True by (simp add: upt_conv_Cons)
    moreover have "read_from inst s e ?c"
      by (simp add: read_from_def g)
    then have "\<forall>c\<in>set (?c # cs). read_from inst s e c"
      using f by simp
    moreover have "t = foldl js_add tot (map cd_votes (?c # cs))"
      using t by simp
    ultimately show ?thesis by blast
  qed
qed

subsection \<open>Running the front ends on the example ledger\<close>

lemma toNumber_small: "n < 2 ^ 53 \<Longrightarrow> toNumber n = Inr n"
  by (simp add: toNumber_def)

lemmas demo_eval = ledger_contract_def ledger_getCandidate_def ledger_getElection_def
  ledger_getElectionCount_def ledger_hasVoted_def demo_ledger_def toNumber_small js_add_exact

lemmas small_eval = ledger_contract_def ledger_getCandidate_def ledger_getElection_def
  small_ledger_def toNumber_small js_add_exact

lemma demo_fetch:
  "\<forall>i\<in>{1..3}. \<exists>name party votes.
      getCandidate (ledger_contract 15) demo_ledger 1 i = Inr (i, name, party, votes)
      \<and> votes < 2 ^ 53"
proof
  fix i :: nat
  assume "i \<in> {1..3}"
  then consider "i = 1" | "i = 2" | "i = 3" by force
  then show "\<exists>name party votes.
      getCandidate (ledger_contract 15) demo_ledger 1 i = Inr (i, name, party, votes)
      \<and> votes < 2 ^ 53"
    by cases (simp_all add: demo_eval)
qed

lemma demo_tally:
  "getCandidatesData (ledger_contract 15) demo_ledger 1 3 =
     Inr ([\<lparr>cd_id = 2, cd_name = ''Bob'', cd_party = ''Blue'', cd_votes = 5\<rparr>,
           \<lparr>cd_id = 1, cd_name = ''Ada'', cd_party = ''Red'', cd_votes = 2\<rparr>,
           \<lparr>cd_id = 3, cd_name = ''Cy'', cd_party = ''Green'', cd_votes = 2\<rparr>], 9)"
  by (simp add: getCandidatesData_def getCandidatesData_loop.simps demo_eval
      js_sort_def by_votes_desc_def)

lemma demo_results:
  "buildResultsHTML (ledger_contract 15) demo_ledger 1 ''Board Election'' 100 200 3 =
     Inr \<lparr>results_name = ''Board Election'', results_startTime = 100, results_endTime = 200,
          results_rows =
            [\<lparr>row_id = 1, row_name = ''Ada'', row_party = ''Red'', row_votes = 2\<rparr>,
             \<lparr>row_id = 2, row_name = ''Bob'', row_party = ''Blue'', row_votes = 5\<rparr>,
             \<lparr>row_id = 3, row_name = ''Cy'', row_party = ''Green'', row_votes = 2\<rparr>],
          results_totalVotes = 9\<rparr>"
  by (simp add: buildResultsHTML_def buildResultsHTML_loop.simps demo_eval)

lemma demo_collect:
  "collectCandidates demo_form =
     [\<lparr>entry_name = ''Dee'', entry_party = ''Red''\<rparr>,
      \<lparr>entry_name = ''Fay'', entry_party = ''Blue''\<rparr>]"
  by (simp add: collectCandidates_def collectCandidates_loop.simps demo_form_def)

lemma demo_formData:
  "getFormData demo_form =
     \<lparr>electionName = ''Council'', startDate = Finite 1000, endDate = Finite 2000,
      candidates = [\<lparr>entry_name = ''Dee'', entry_party = ''Red''\<rparr>,
                    \<lparr>entry_name = ''Fay'', entry_party = ''Blue''\<rparr>]\<rparr>"
  by (simp add: getFormData_def demo_collect) (simp add: demo_form_def)

subsection \<open>Election status\<close>

lemma demo_row:
  "VoterApp_loadActiveElections_row (ledger_contract 15) demo_ledger ''0xb2'' 150 1 =
     Inr \<lparr>erow_id = 1, erow_name = ''Board Election'', erow_startTime = 100,
          erow_endTime = 200, erow_status = Active, erow_statusClass = ''status-active'',
          erow_action = VoteNow 1\<rparr>"
  by (simp add: VoterApp_loadActiveElections_row_def statusClass_of_def demo_eval)

text \<open>
  Claim C4. The status is a function of \<open>now\<close> against the half-open window
  \<open>[startTime, endTime)\<close> only: it is Active exactly when
  \<open>startTime \<le> now < endTime\<close>, Ended exactly when it is not Active and
  \<open>endTime \<le> now\<close>, and Upcoming exactly in the remaining case. The three cases exclude
  each other because the status is a single value of a three-element type. The status
  shown in a row of the voter's list is the one the admin function computes from the
  row's times.
\<close>

theorem electionStatus_window:
  "(fst (getElectionStatus startTime endTime now) = Active) =
      (now \<ge> startTime \<and> now < endTime)
   \<and> (fst (getElectionStatus startTime endTime now) = Ended) =
      (\<not> (now \<ge> startTime \<and> now < endTime) \<and> now \<ge> endTime)
   \<and> (fst (getElectionStatus startTime endTime now) = Upcoming) =
      (\<not> (now \<ge> startTime \<and> now < endTime) \<and> \<not> now \<ge> endTime)
   \<and> (\<forall>row. VoterApp_loadActiveElections_row inst s account now i = Inr row \<longrightarrow>
        (erow_status row, erow_statusClass row) =
          getElectionStatus (int (erow_startTime row)) (int (erow_endTime row)) now)"
proof -
  have "(erow_status row, erow_statusClass row) =
          getElectionStatus (int (erow_startTime row)) (int (erow_endTime row)) now"
    if "VoterApp_loadActiveElections_row inst s account now i = Inr row" for row
    using that
    by (auto simp: VoterApp_loadActiveElections_row_def getElectionStatus_def statusClass_of_def
        split: sum.splits if_splits)
  then show ?thesis
    by (simp add: getElectionStatus_def)
qed

theorem electionStatus_window_witness:
  "fst (getElectionStatus 100 200 99) = Upcoming
   \<and> fst (getElectionStatus 100 200 100) = Active
   \<and> fst (getElectionStatus 100 200 199) = Active
   \<and> fst (getElectionStatus 100 200 200) = Ended
   \<and> getElectionStatus 100 200 150 = (Active, ''status-active'')"
  using electionStatus_window [of 100 200 99 "ledger_contract 15" demo_ledger "''0xb2''" 1]
    electionStatus_window [of 100 200 100 "ledger_contract 15" demo_ledger "''0xb2''" 1]
    electionStatus_window [of 100 200 199 "ledger_contract 15" demo_ledger "''0xb2''" 1]
    electionStatus_window [of 100 200 200 "ledger_contract 15" demo_ledger "''0xb2''" 1]
    electionStatus_window [of 100 200 150 "ledger_contract 15" demo_ledger "''0xb2''" 1,
      THEN conjunct2, THEN conjunct2, THEN conjunct2, rule_format, OF demo_row]
  by simp

subsection \<open>Ranking of the tally\<close>

lemma getCandidatesData_reads:
  assumes "candidateCount < 2 ^ 53"
    and "\<forall>i\<in>{1..candidateCount}. \<exists>name party votes.
           getCandidate inst s electionId i = Inr (i, name, party, votes) \<and> votes < 2 ^ 53"
  shows "\<exists>cs totalVotes.
           VoterApp_viewElectionResults_loop inst s electionId candidateCount 1 [] 0 = Inr (cs, totalVotes)
         \<and> getCandidatesData inst s electionId candidateCount =
             Inr (js_sort by_votes_desc cs, totalVotes)
         \<and> ranked_by cd_votes cd_id (js_sort by_votes_desc cs)
         \<and> distinct (map cd_id (js_sort by_votes_desc cs))
         \<and> set (map cd_id (js_sort by_votes_desc cs)) = {1..candidateCount}
         \<and> (\<forall>c\<in>set (js_sort by_votes_desc cs). read_from inst s electionId c)
         \<and> (sum_list (map cd_votes (js_sort by_votes_desc cs)) < 2 ^ 53 \<longrightarrow>
              totalVotes = sum_list (map cd_votes (js_sort by_votes_desc cs)))
         \<and> ((\<forall>c\<in>set (js_sort by_votes_desc cs). cd_votes c = 0) \<longrightarrow> totalVotes = 0)"
proof -
  from VoterApp_viewElectionResults_loop_reads [OF le_refl assms(2) assms(1), of "[]" 0]
  obtain cs t where
    v: "VoterApp_viewElectionResults_loop inst s electionId candidateCount 1 [] 0 = Inr (cs, t)"
    and m: "map cd_id cs = [1..<Suc candidateCount]"
    and f: "\<forall>c\<in>set cs. read_from inst s electionId c"
    and t: "t = foldl js_add 0 (map cd_votes cs)"
    by auto
  have g: "getCandidatesData inst s electionId candidateCount = Inr (js_sort by_votes_desc cs, t)"
    using v by (simp add: getCandidatesData_def getCandidatesData_loop_eq)
  have "sorted_wrt (<) (map cd_id cs)"
    unfolding m by (rule sorted_wrt_upt)
  then have r: "ranked_by cd_votes cd_id (js_sort by_votes_desc cs)"
    by (rule ranked_js_sort)
  have ms: "mset (map cd_id (js_sort by_votes_desc cs)) = mset (map cd_id cs)"
    by (simp add: mset_js_sort)
  have "distinct (map cd_id cs)"
    unfolding m by (rule distinct_upt)
  with ms have d: "distinct (map cd_id (js_sort by_votes_desc cs))"
    by (metis mset_eq_imp_distinct_iff)
  have "set (map cd_id cs) = {1..candidateCount}"
    unfolding m by (simp only: set_upt atLeastLessThanSuc_atLeastAtMost)
  with ms have e: "set (map cd_id (js_sort by_votes_desc cs)) = {1..candidateCount}"
    by (metis set_mset_mset)
  have f': "\<forall>c\<in>set (js_sort by_votes_desc cs). read_from inst s electionId c"
    using f by (simp add: set_js_sort)
  have sl: "sum_list (map cd_votes (js_sort by_votes_desc cs)) = sum_list (map cd_votes cs)"
  proof -
    have "mset (map cd_votes (js_sort by_votes_desc cs)) = mset (map cd_votes cs)"
      by (simp add: mset_js_sort)
    then show ?thesis by (metis sum_mset_sum_list)
  qed
  have s1: "sum_list (map cd_votes (js_sort by_votes_desc cs)) < 2 ^ 53 \<longrightarrow>
              t = sum_list (map cd_votes (js_sort by_votes_desc cs))"
    unfolding sl t using foldl_js_add_exact [of 0 "map cd_votes cs"] by simp
  have s2: "(\<forall>c\<in>set (js_sort by_votes_desc cs). cd_votes c = 0) \<longrightarrow> t = 0"
  proof
    assume "\<forall>c\<in>set (js_sort by_votes_desc cs). cd_votes c = 0"
    then have z: "\<forall>c\<in>set cs. cd_votes c = 0" by (simp add: set_js_sort)
    then have z0: "sum_list (map cd_votes cs) = 0" by simp
    have "foldl js_add 0 (map cd_votes cs) = 0 + sum_list (map cd_votes cs)"
      by (rule foldl_js_add_exact) (simp add: z0)
    then show "t = 0" by (simp add: t z0)
  qed
  from v g r d e f' s1 s2 show ?thesis by blast
qed

text \<open>
  Claim C1. When the store numbers the candidates of an election 1, 2, ... in the order
  it returns them (\<^verbatim>\<open>getCandidate(electionId, i)\<close> answers with id \<open>i\<close>), the admin
  tally and the voter's results table both list every candidate once, by votes
  descending, and candidates with equal votes by ascending id. What is listed is what was
  read: the name, party and votes of a listed candidate are those \<^verbatim>\<open>getCandidate\<close>
  answers for its id, and the total is the sum of the listed votes (as long as that sum is
  below \<open>2 ^ 53\<close>, where the addition of doubles is exact).
\<close>

theorem tally_ranked:
  assumes "candidateCount < 2 ^ 53"
    and "\<forall>i\<in>{1..candidateCount}. \<exists>name party votes.
           getCandidate inst s electionId i = Inr (i, name, party, votes) \<and> votes < 2 ^ 53"
  shows "(\<exists>cands totalVotes.
            getCandidatesData inst s electionId candidateCount = Inr (cands, totalVotes)
          \<and> ranked_by cd_votes cd_id cands
          \<and> distinct (map cd_id cands) \<and> set (map cd_id cands) = {1..candidateCount}
          \<and> (\<forall>c\<in>set cands.
                getCandidate inst s electionId (cd_id c) =
                  Inr (cd_id c, cd_name c, cd_party c, cd_votes c))
          \<and> (sum_list (map cd_votes cands) < 2 ^ 53 \<longrightarrow>
                totalVotes = sum_list (map cd_votes cands)))
       \<and> (\<forall>e0 name startTime endTime.
            getElection inst s electionId = Inr (e0, name, startTime, endTime, candidateCount)
            \<and> startTime < 2 ^ 53 \<and> endTime < 2 ^ 53
            \<longrightarrow> (\<exists>r. VoterApp_viewElectionResults inst s electionId = Inr r
                  \<and> ranked_by vrow_votes vrow_id (vresults_rows r)
                  \<and> distinct (map vrow_id (vresults_rows r))
                  \<and> set (map vrow_id (vresults_rows r)) = {1..candidateCount}
                  \<and> (\<forall>row\<in>set (vresults_rows r).
                        getCandidate inst s electionId (vrow_id row) =
                          Inr (vrow_id row, vrow_name row, vrow_party row, vrow_votes row))
                  \<and> (sum_list (map vrow_votes (vresults_rows r)) < 2 ^ 53 \<longrightarrow>
                        vresults_totalVotes r = sum_list (map vrow_votes (vresults_rows r)))))"
proof -
  from getCandidatesData_reads [OF assms] obtain cs t where
    v: "VoterApp_viewElectionResults_loop inst s electionId candidateCount 1 [] 0 = Inr (cs, t)"
    and g: "getCandidatesData inst s electionId candidateCount = Inr (js_sort by_votes_desc cs, t)"
    and r: "ranked_by cd_votes cd_id (js_sort by_votes_desc cs)"
    and d: "distinct (map cd_id (js_sort by_votes_desc cs))"
    and m: "set (map cd_id (js_sort by_votes_desc cs)) = {1..candidateCount}"
    and f: "\<forall>c\<in>set (js_sort by_votes_desc cs). read_from inst s electionId c"
    and t: "sum_list (map cd_votes (js_sort by_votes_desc cs)) < 2 ^ 53 \<longrightarrow>
              t = sum_list (map cd_votes (js_sort by_votes_desc cs))"
    by blast
  define sorted where "sorted = js_sort by_votes_desc cs"
  have f': "\<forall>c\<in>set sorted.
      getCandidate inst s electionId (cd_id c) = Inr (cd_id c, cd_name c, cd_party c, cd_votes c)"
    using f by (simp add: read_from_def sorted_def)
  have d': "distinct (map cd_id sorted)" using d by (simp only: sorted_def)
  have m': "set (map cd_id sorted) = {1..candidateCount}" using m by (simp only: sorted_def)
  have t': "sum_list (map cd_votes sorted) < 2 ^ 53 \<longrightarrow> t = sum_list (map cd_votes sorted)"
    using t by (simp only: sorted_def)
  have admin: "\<exists>cands totalVotes.
            getCandidatesData inst s electionId candidateCount = Inr (cands, totalVotes)
          \<and> ranked_by cd_votes cd_id cands
          \<and> distinct (map cd_id cands) \<and> set (map cd_id cands) = {1..candidateCount}
          \<and> (\<forall>c\<in>set cands.
                getCandidate inst s electionId (cd_id c) =
                  Inr (cd_id c, cd_name c, cd_party c, cd_votes c))
          \<and> (sum_list (map cd_votes cands) < 2 ^ 53 \<longrightarrow>
                totalVotes = sum_list (map cd_votes cands))"
    using g r d m f' t unfolding sorted_def [symmetric] by blast
  have voter: "\<exists>r. VoterApp_viewElectionResults inst s electionId = Inr r
                  \<and> ranked_by vrow_votes vrow_id (vresults_rows r)
                  \<and> distinct (map vrow_id (vresults_rows r))
                  \<and> set (map vrow_id (vresults_rows r)) = {1..candidateCount}
                  \<and> (\<forall>row\<in>set (vresults_rows r).
                        getCandidate inst s electionId (vrow_id row) =
                          Inr (vrow_id row, vrow_name row, vrow_party row, vrow_votes row))
                  \<and> (sum_list (map vrow_votes (vresults_rows r)) < 2 ^ 53 \<longrightarrow>
                        vresults_totalVotes r = sum_list (map vrow_votes (vresults_rows r)))"
    if e: "getElection inst s electionId = Inr (e0, name, startTime, endTime, candidateCount)"
      and st: "startTime < 2 ^ 53" and en: "endTime < 2 ^ 53"
    for e0 name startTime endTime
  proof -
    have tn: "toNumber startTime = Inr startTime" "toNumber endTime = Inr endTime"
      "toNumber candidateCount = Inr candidateCount"
      using st en assms(1) by (simp_all add: toNumber_def)
    let ?f = "\<lambda>candidate.
                \<lparr>vrow_id = cd_id candidate, vrow_name = cd_name candidate,
                 vrow_party = cd_party candidate, vrow_votes = cd_votes candidate,
                 vrow_percentage = results_percentage (cd_votes candidate) t\<rparr>"
    let ?r = "\<lparr>vresults_name = name, vresults_startTime = startTime,
                vresults_endTime = endTime,
                vresults_rows = map ?f sorted,
                vresults_totalVotes = t\<rparr>"
    have 1: "VoterApp_viewElectionResults inst s electionId = Inr ?r"
      using v by (simp add: VoterApp_viewElectionResults_def e tn sorted_def)
    have rows: "vresults_rows ?r = map ?f sorted"
      by simp
    have "ranked_by vrow_votes vrow_id (map ?f sorted)"
      using r by (simp add: ranked_by_def sorted_wrt_map sorted_def)
    then have 2: "ranked_by vrow_votes vrow_id (vresults_rows ?r)"
      by (simp only: rows)
    have ids: "map vrow_id (vresults_rows ?r) = map cd_id sorted"
      by simp
    have votes: "map vrow_votes (vresults_rows ?r) = map cd_votes sorted"
      by simp
    have 3: "distinct (map vrow_id (vresults_rows ?r))"
      using d' by (simp only: ids)
    have 4: "set (map vrow_id (vresults_rows ?r)) = {1..candidateCount}"
      using m' by (simp only: ids)
    have 5: "\<forall>row\<in>set (vresults_rows ?r).
        getCandidate inst s electionId (vrow_id row) =
          Inr (vrow_id row, vrow_name row, vrow_party row, vrow_votes row)"
      using f' by auto
    have 6: "sum_list (map vrow_votes (vresults_rows ?r)) < 2 ^ 53 \<longrightarrow>
        vresults_totalVotes ?r = sum_list (map vrow_votes (vresults_rows ?r))"
      using t' unfolding votes by simp
    from 1 2 3 4 5 6 show ?thesis by blast
  qed
  from admin voter show ?thesis by blast
qed

theorem tally_ranked_witness:
  "(\<exists>cands totalVotes.
      getCandidatesData (ledger_contract 15) demo_ledger 1 3 = Inr (cands, totalVotes)
      \<and> ranked_by cd_votes cd_id cands \<and> map cd_id cands = [2, 1, 3]
      \<and> map cd_votes cands = [5, 2, 2] \<and> totalVotes = 9)
   \<and> (\<exists>r. VoterApp_viewElectionResults (ledger_contract 15) demo_ledger 1 = Inr r
      \<and> ranked_by vrow_votes vrow_id (vresults_rows r))"
proof -
  have c: "(3::nat) < 2 ^ 53" by simp
  have e: "getElection (ledger_contract 15) demo_ledger 1 = Inr (1, ''Board Election'', 100, 200, 3)
      \<and> (100::nat) < 2 ^ 53 \<and> (200::nat) < 2 ^ 53"
    by (simp add: demo_eval)
  from tally_ranked [OF c demo_fetch] e demo_tally show ?thesis
    by auto
qed

subsection \<open>Live tally and final results\<close>

text \<open>
  What the two admin builders share. The live tally (\<^verbatim>\<open>getCandidatesData\<close>) and the
  final-results table (\<^verbatim>\<open>buildResultsHTML\<close>) are two loops over the same reads: they
  fail together with the same error, and when they succeed they hold the same candidates
  with the same vote counts and the same total. The live tally is the fetched list sorted
  by votes, descending and stable; the final-results table keeps the fetched order, so the
  two orders agree only when the fetched votes already descend.
\<close>

lemma tally_vs_results:
  "(\<forall>err. (getCandidatesData inst s electionId candidateCount = Inl err)
        = (buildResultsHTML inst s electionId name startTime endTime candidateCount = Inl err))
   \<and> (\<forall>cands totalVotes.
        getCandidatesData inst s electionId candidateCount = Inr (cands, totalVotes) \<longrightarrow>
        (\<exists>fetched.
           buildResultsHTML inst s electionId name startTime endTime candidateCount =
             Inr \<lparr>results_name = name, results_startTime = startTime,
                  results_endTime = endTime, results_rows = map row_of fetched,
                  results_totalVotes = totalVotes\<rparr>
         \<and> cands = js_sort by_votes_desc fetched
         \<and> mset cands = mset fetched
         \<and> (sorted_wrt (\<lambda>a b. cd_votes b \<le> cd_votes a) fetched \<longrightarrow> cands = fetched)))"
proof (cases "VoterApp_viewElectionResults_loop inst s electionId candidateCount 1 [] 0")
  case (Inl err)
  have "getCandidatesData inst s electionId candidateCount = Inl err"
    using Inl by (simp add: getCandidatesData_def getCandidatesData_loop_eq)
  moreover have "buildResultsHTML inst s electionId name startTime endTime candidateCount = Inl err"
    using Inl buildResultsHTML_loop_eq [of inst s electionId candidateCount 1 "[]" 0]
    by (simp add: buildResultsHTML_def)
  ultimately show ?thesis by simp
next
  case (Inr r)
  obtain fetched t where r: "r = (fetched, t)" by (cases r)
  have g: "getCandidatesData inst s electionId candidateCount =
      Inr (js_sort by_votes_desc fetched, t)"
    using Inr r by (simp add: getCandidatesData_def getCandidatesData_loop_eq)
  have b: "buildResultsHTML inst s electionId name startTime endTime candidateCount =
      Inr \<lparr>results_name = name, results_startTime = startTime,
           results_endTime = endTime, results_rows = map row_of fetched,
           results_totalVotes = t\<rparr>"
    using Inr r buildResultsHTML_loop_eq [of inst s electionId candidateCount 1 "[]" 0]
    by (simp add: buildResultsHTML_def)
  have m: "mset (js_sort by_votes_desc fetched) = mset fetched"
    by (rule mset_js_sort)
  have o: "sorted_wrt (\<lambda>a b. cd_votes b \<le> cd_votes a) fetched
      \<longrightarrow> js_sort by_votes_desc fetched = fetched"
    by (simp add: js_sort_sorted)
  show ?thesis
    unfolding g b using m o by blast
qed

lemma tally_vs_results_example:
  "\<exists>fetched.
     buildResultsHTML (ledger_contract 15) demo_ledger 1 ''Board Election'' 100 200 3 =
       Inr \<lparr>results_name = ''Board Election'', results_startTime = 100,
            results_endTime = 200, results_rows = map row_of fetched,
            results_totalVotes = 9\<rparr>
     \<and> [\<lparr>cd_id = 2, cd_name = ''Bob'', cd_party = ''Blue'', cd_votes = 5\<rparr>,
        \<lparr>cd_id = 1, cd_name = ''Ada'', cd_party = ''Red'', cd_votes = 2\<rparr>,
        \<lparr>cd_id = 3, cd_name = ''Cy'', cd_party = ''Green'', cd_votes = 2\<rparr>]
       = js_sort by_votes_desc fetched"
proof -
  note t = tally_vs_results [of "ledger_contract 15" demo_ledger 1 3 "''Board Election''" 100 200,
      THEN conjunct2, rule_format, OF demo_tally]
  then obtain fetched where
    "buildResultsHTML (ledger_contract 15) demo_ledger 1 ''Board Election'' 100 200 3 =
       Inr \<lparr>results_name = ''Board Election'', results_startTime = 100,
            results_endTime = 200, results_rows = map row_of fetched,
            results_totalVotes = 9\<rparr>"
    and "[\<lparr>cd_id = 2, cd_name = ''Bob'', cd_party = ''Blue'', cd_votes = 5\<rparr>,
        \<lparr>cd_id = 1, cd_name = ''Ada'', cd_party = ''Red'', cd_votes = 2\<rparr>,
        \<lparr>cd_id = 3, cd_name = ''Cy'', cd_party = ''Green'', cd_votes = 2\<rparr>]
       = js_sort by_votes_desc fetched"
    by blast
  then show ?thesis by blast
qed

text \<open>
  Claim C2. The claim asks that the live tally and the final results present the
  candidates in the same order. The live tally sorts by votes, as the voter's results view
  does (\<^verbatim>\<open>Sort candidates by votes (descending)\<close>); the admin final-results table is
  built without the sort. On the example ledger the tally lists the candidates 2, 1, 3 and
  the final-results table 1, 2, 3.
\<close>

theorem results_table_order:
  "map cd_id (fst (projr (getCandidatesData (ledger_contract 15) demo_ledger 1 3))) = [2, 1, 3]
   \<and> map row_id (results_rows (projr
         (buildResultsHTML (ledger_contract 15) demo_ledger 1 ''Board Election'' 100 200 3)))
       = [1, 2, 3]
   \<and> map cd_id (fst (projr (getCandidatesData (ledger_contract 15) demo_ledger 1 3)))
       \<noteq> map row_id (results_rows (projr
           (buildResultsHTML (ledger_contract 15) demo_ledger 1 ''Board Election'' 100 200 3)))"
  using demo_tally demo_results by simp

subsection \<open>Determinism of the tally\<close>

lemma getCandidatesData_loop_cong:
  "\<forall>j\<in>{i..n}. getCandidate inst1 s1 e j = getCandidate inst2 s2 e j \<Longrightarrow>
   getCandidatesData_loop inst1 s1 e n i acc tot = getCandidatesData_loop inst2 s2 e n i acc tot"
proof (induction inst1 s1 e n i acc tot rule: getCandidatesData_loop.induct)
  case (1 inst1 s1 e n i acc tot)
  show ?case
  proof (cases "i \<le> n")
    case False
    then show ?thesis
      by (subst getCandidatesData_loop.simps, subst (2) getCandidatesData_loop.simps) simp
  next
    case True
    then have eq: "getCandidate inst1 s1 e i = getCandidate inst2 s2 e i"
      using "1.prems" by simp
    have rest: "\<forall>j\<in>{i + 1..n}. getCandidate inst1 s1 e j = getCandidate inst2 s2 e j"
      using "1.prems" by simp
    show ?thesis
      apply (subst getCandidatesData_loop.simps)
      apply (subst (2) getCandidatesData_loop.simps)
      using "1.IH" [OF True _ refl refl refl _ _ rest] eq [symmetric]
      by (simp add: True split: sum.splits prod.splits)
  qed
qed

text \<open>
  Claim C8. The tally is a function of the candidates the store returns for the
  election: two runs that read the same candidate tuples for the ids 1 to
  \<open>candidateCount\<close> (the same store, or stores that differ elsewhere) return the same
  ordering, the same counts and the same total, or fail with the same error.
\<close>

theorem tally_deterministic:
  "\<forall>i\<in>{1..candidateCount}.
      getCandidate inst1 s1 electionId i = getCandidate inst2 s2 electionId i \<Longrightarrow>
   getCandidatesData inst1 s1 electionId candidateCount =
     getCandidatesData inst2 s2 electionId candidateCount"
  unfolding getCandidatesData_def by (rule getCandidatesData_loop_cong)

theorem tally_deterministic_witness:
  "getCandidatesData (ledger_contract 15) demo_ledger 1 3 =
     getCandidatesData (ledger_contract 30) (mined 60 demo_ledger) 1 3
   \<and> blockTime (mined 60 demo_ledger) \<noteq> blockTime demo_ledger"
proof -
  have "\<forall>i\<in>{1..3}. getCandidate (ledger_contract 15) demo_ledger 1 i =
      getCandidate (ledger_contract 30) (mined 60 demo_ledger) 1 i"
    by (simp add: ledger_contract_def ledger_getCandidate_def mined_def)
  from tally_deterministic [OF this] show ?thesis
    by (simp add: mined_def)
qed

subsection \<open>An election without candidates\<close>

text \<open>
  Claim C9. For \<open>candidateCount = 0\<close> the candidate data is the empty list with total 0,
  without error; and the live tally of an election whose \<^verbatim>\<open>candidateCount\<close> is 0 only
  shows the message that no candidates were found and hides the cards: the cards are
  left as they were, and no candidate is read, whatever \<^verbatim>\<open>getCandidate\<close> would answer.
\<close>

theorem no_candidates_tally:
  "getCandidatesData inst s electionId 0 = Inr ([], 0)
   \<and> (\<forall>e0 name e2 e3 g.
        getElection inst s id' = Inr (e0, name, e2, e3, 0) \<longrightarrow>
        updateLiveTally (inst\<lparr>getCandidate := g\<rparr>) s id' panel =
          panel\<lparr>tallyMessage_text := ''No candidates found for this election'',
            tallyMessage_shown := True, tallyCards_shown := False\<rparr>)"
proof -
  have 1: "getCandidatesData inst s electionId 0 = Inr ([], 0)"
    unfolding getCandidatesData_def
    by (subst getCandidatesData_loop.simps) (simp add: js_sort_def)
  have 2: "toNumber 0 = Inr 0" by (simp add: toNumber_def)
  show ?thesis
    using 1 by (simp add: updateLiveTally_def 2)
qed

theorem no_candidates_tally_witness:
  "getCandidatesData (ledger_contract 15) demo_ledger 2 0 = Inr ([], 0)
   \<and> updateLiveTally (ledger_contract 15) demo_ledger 2
        \<lparr>tallyMessage_text = '''', tallyMessage_shown = False, tallyCards_shown = True,
         tallyCards_title = ''Live Results: Board Election'', tallyCards_cards = []\<rparr> =
      \<lparr>tallyMessage_text = ''No candidates found for this election'',
       tallyMessage_shown = True, tallyCards_shown = False,
       tallyCards_title = ''Live Results: Board Election'', tallyCards_cards = []\<rparr>"
proof -
  have e: "getElection (ledger_contract 15) demo_ledger 2 = Inr (2, ''Empty Election'', 300, 400, 0)"
    by (simp add: demo_eval)
  have i: "(ledger_contract 15)\<lparr>getCandidate := ledger_getCandidate\<rparr> = ledger_contract 15"
    by (simp add: ledger_contract_def)
  from no_candidates_tally [of "ledger_contract 15" demo_ledger 2 2, THEN conjunct1]
    no_candidates_tally [of "ledger_contract 15" demo_ledger 2 2, THEN conjunct2, rule_format,
      OF e, where g = ledger_getCandidate]
  show ?thesis
    unfolding i by simp
qed

subsection \<open>Percentages\<close>

lemma percent_error:
  assumes "0 \<le> x"
  shows "\<bar>fl (fl x * 100) - x * 100\<bar> \<le> x * 100 / 2 ^ 51"
proof -
  define q where "q = fl x"
  have q0: "0 \<le> q" using assms by (simp add: q_def fl_nonneg)
  have e1: "\<bar>q - x\<bar> \<le> x / 2 ^ 53" unfolding q_def by (rule fl_error [OF assms])
  have "0 \<le> q * 100" using q0 by simp
  from fl_error [OF this] have e2: "\<bar>fl (q * 100) - q * 100\<bar> \<le> q * 100 / 2 ^ 53" .
  have "x / 2 ^ 53 \<le> x" using assms by (simp add: field_simps)
  with e1 have qx: "q \<le> 2 * x" by linarith
  have "fl (q * 100) - x * 100 = (fl (q * 100) - q * 100) + 100 * (q - x)"
    by simp
  then have "\<bar>fl (q * 100) - x * 100\<bar> \<le> \<bar>fl (q * 100) - q * 100\<bar> + \<bar>100 * (q - x)\<bar>"
    by (simp only: abs_triangle_ineq)
  also have "\<bar>100 * (q - x)\<bar> = 100 * \<bar>q - x\<bar>"
    by (simp only: abs_mult abs_numeral)
  finally have "\<bar>fl (q * 100) - x * 100\<bar> \<le> \<bar>fl (q * 100) - q * 100\<bar> + 100 * \<bar>q - x\<bar>" .
  then have "\<bar>fl (q * 100) - x * 100\<bar> \<le> q * 100 / 2 ^ 53 + 100 * (x / 2 ^ 53)"
    using e1 e2 by linarith
  also have "\<dots> \<le> (2 * x) * 100 / 2 ^ 53 + 100 * (x / 2 ^ 53)"
    using qx by (simp add: divide_right_mono)
  also have "\<dots> \<le> x * 100 / 2 ^ 51"
    using assms by (simp add: field_simps)
  finally show ?thesis unfolding q_def .
qed

lemma toFixed_error: "\<bar>of_int (toFixed p f) / 10 ^ f - p\<bar> \<le> 1 / (2 * 10 ^ f)"
proof -
  define n where "n = toFixed p f"
  have "of_int n \<le> p * 10 ^ f + 1 / 2" "p * 10 ^ f + 1 / 2 < of_int n + 1"
    unfolding n_def toFixed_def by linarith+
  then have h: "\<bar>of_int n - p * 10 ^ f\<bar> \<le> 1 / 2" by linarith
  have "\<bar>of_int n - p * 10 ^ f\<bar> / 10 ^ f \<le> (1 / 2) / 10 ^ f"
    by (rule divide_right_mono [OF h]) simp
  moreover have "\<bar>of_int n - p * 10 ^ f\<bar> / 10 ^ f = \<bar>of_int n / 10 ^ f - p\<bar>"
  proof -
    have "(of_int n - p * 10 ^ f) / 10 ^ f = of_int n / 10 ^ f - p"
      by (simp add: field_simps)
    then have "\<bar>of_int n / 10 ^ f - p\<bar> = \<bar>of_int n - p * 10 ^ f\<bar> / \<bar>(10::rat) ^ f\<bar>"
      by (metis abs_divide)
    then show ?thesis by simp
  qed
  ultimately show ?thesis by (simp add: n_def)
qed

lemma rounded_percentage:
  assumes "0 \<le> x"
  shows "\<bar>of_int (toFixed (fl (fl x * 100)) f) / 10 ^ f - x * 100\<bar>
           \<le> 1 / (2 * 10 ^ f) + x * 100 / 2 ^ 51"
  using percent_error [OF assms] toFixed_error [of "fl (fl x * 100)" f] by linarith

lemma third_percent:
  "toFixed (fl (fl (1 / 3) * 100)) 1 = 333" "toFixed (fl (fl (1 / 3) * 100)) 2 = 3333"
  by code_simp+

text \<open>
  The percentage of one candidate: the number 0 without votes, and otherwise
  \<open>votes / totalVotes * 100\<close> computed in double precision and rounded by \<^verbatim>\<open>toFixed\<close>.
  Every card of the admin tally carries it.
\<close>

lemma percentage_values:
  "(totalVotes = 0 \<longrightarrow>
      tally_percentage votes totalVotes = Number 0
      \<and> results_percentage votes totalVotes = Number 0)
   \<and> (0 < totalVotes \<longrightarrow>
      (\<exists>n. tally_percentage votes totalVotes = Decimal n 1)
      \<and> \<bar>percentage_value (tally_percentage votes totalVotes)
            - of_nat votes / of_nat totalVotes * 100\<bar>
          \<le> 1 / 20 + of_nat votes / of_nat totalVotes * 100 / 2 ^ 51
      \<and> (\<exists>n. results_percentage votes totalVotes = Decimal n 2)
      \<and> \<bar>percentage_value (results_percentage votes totalVotes)
            - of_nat votes / of_nat totalVotes * 100\<bar>
          \<le> 1 / 200 + of_nat votes / of_nat totalVotes * 100 / 2 ^ 51)
   \<and> map card_percentage
        (tallyCards_cards (displayTallyResults title cands totalVotes panel)) =
      map (\<lambda>candidate. tally_percentage (cd_votes candidate) totalVotes) cands
   \<and> tallyCards_shown (displayTallyResults title cands totalVotes panel)
   \<and> \<not> tallyMessage_shown (displayTallyResults title cands totalVotes panel)"
proof -
  have x: "(0::rat) \<le> of_nat votes / of_nat totalVotes" by simp
  have a: "\<bar>percentage_value (tally_percentage votes totalVotes)
            - of_nat votes / of_nat totalVotes * 100\<bar>
          \<le> 1 / 20 + of_nat votes / of_nat totalVotes * 100 / 2 ^ 51" if "0 < totalVotes"
    using rounded_percentage [OF x, of 1] that by (simp add: tally_percentage_def)
  have b: "\<bar>percentage_value (results_percentage votes totalVotes)
            - of_nat votes / of_nat totalVotes * 100\<bar>
          \<le> 1 / 200 + of_nat votes / of_nat totalVotes * 100 / 2 ^ 51" if "0 < totalVotes"
    using rounded_percentage [OF x, of 2] that by (simp add: results_percentage_def)
  have c: "map card_percentage
        (tallyCards_cards (displayTallyResults title cands totalVotes panel)) =
      map (\<lambda>candidate. tally_percentage (cd_votes candidate) totalVotes) cands"
    by (simp add: displayTallyResults_def comp_def)
  have d: "tallyCards_shown (displayTallyResults title cands totalVotes panel)"
    "\<not> tallyMessage_shown (displayTallyResults title cands totalVotes panel)"
    by (simp_all add: displayTallyResults_def)
  show ?thesis
    using a b c d by (simp add: tally_percentage_def results_percentage_def)
qed

lemma VoterApp_viewElectionResults_of_loop:
  assumes "getElection inst s electionId = Inr (e0, name, startTime, endTime, candidateCount)"
    and "startTime < 2 ^ 53" "endTime < 2 ^ 53" "candidateCount < 2 ^ 53"
    and "VoterApp_viewElectionResults_loop inst s electionId candidateCount 1 [] 0 = Inr (cs, t)"
  shows "VoterApp_viewElectionResults inst s electionId =
     Inr \<lparr>vresults_name = name, vresults_startTime = startTime, vresults_endTime = endTime,
          vresults_rows =
            map (\<lambda>candidate.
                  \<lparr>vrow_id = cd_id candidate, vrow_name = cd_name candidate,
                   vrow_party = cd_party candidate, vrow_votes = cd_votes candidate,
                   vrow_percentage = results_percentage (cd_votes candidate) t\<rparr>)
              (js_sort by_votes_desc cs),
          vresults_totalVotes = t\<rparr>"
proof -
  have tn: "toNumber startTime = Inr startTime" "toNumber endTime = Inr endTime"
    "toNumber candidateCount = Inr candidateCount"
    using assms(2-4) by (simp_all add: toNumber_def)
  show ?thesis
    using assms(5) by (simp add: VoterApp_viewElectionResults_def assms(1) tn)
qed

lemma VoterApp_viewElectionResults_percentage:
  assumes "VoterApp_viewElectionResults inst s electionId = Inr r"
  shows "\<forall>row\<in>set (vresults_rows r).
     vrow_percentage row = results_percentage (vrow_votes row) (vresults_totalVotes r)"
  using assms
  by (auto simp: VoterApp_viewElectionResults_def and_then_def split: sum.splits prod.splits)

lemma no_votes_views:
  assumes e: "getElection inst s electionId = Inr (e0, name, startTime, endTime, candidateCount)"
    and b: "startTime < 2 ^ 53" "endTime < 2 ^ 53" "candidateCount < 2 ^ 53"
    and z: "\<forall>i\<in>{1..candidateCount}. \<exists>cname party.
          getCandidate inst s electionId i = Inr (i, cname, party, 0)"
  shows "(\<exists>r. VoterApp_viewElectionResults inst s electionId = Inr r
            \<and> vresults_totalVotes r = 0 \<and> length (vresults_rows r) = candidateCount
            \<and> (\<forall>row\<in>set (vresults_rows r). vrow_percentage row = Number 0))
       \<and> (0 < candidateCount \<longrightarrow>
            (\<exists>cands. updateLiveTally inst s electionId panel =
                        displayTallyResults name cands 0 panel
               \<and> length cands = candidateCount))"
proof -
  have h: "\<forall>i\<in>{1..candidateCount}. \<exists>cname party votes.
      getCandidate inst s electionId i = Inr (i, cname, party, votes) \<and> votes < 2 ^ 53"
  proof
    fix i assume "i \<in> {1..candidateCount}"
    from bspec [OF z this] obtain cname party where
      "getCandidate inst s electionId i = Inr (i, cname, party, 0)" by blast
    then show "\<exists>cname party votes.
      getCandidate inst s electionId i = Inr (i, cname, party, votes) \<and> votes < 2 ^ 53"
      by simp
  qed
  from getCandidatesData_reads [OF b(3) h] obtain cs t where
    v: "VoterApp_viewElectionResults_loop inst s electionId candidateCount 1 [] 0 = Inr (cs, t)"
    and g: "getCandidatesData inst s electionId candidateCount = Inr (js_sort by_votes_desc cs, t)"
    and d: "distinct (map cd_id (js_sort by_votes_desc cs))"
    and m: "set (map cd_id (js_sort by_votes_desc cs)) = {1..candidateCount}"
    and f: "\<forall>c\<in>set (js_sort by_votes_desc cs). read_from inst s electionId c"
    and t0: "(\<forall>c\<in>set (js_sort by_votes_desc cs). cd_votes c = 0) \<longrightarrow> t = 0"
    by blast
  define sorted where "sorted = js_sort by_votes_desc cs"
  have len: "length sorted = candidateCount"
  proof -
    have "length (map cd_id sorted) = card (set (map cd_id sorted))"
      using d by (simp only: sorted_def distinct_card)
    also have "\<dots> = candidateCount"
      using m by (simp add: sorted_def)
    finally show ?thesis by simp
  qed
  have zero: "\<forall>c\<in>set sorted. cd_votes c = 0"
  proof
    fix c assume c: "c \<in> set sorted"
    then have "cd_id c \<in> {1..candidateCount}"
      using m by (auto simp: sorted_def)
    from bspec [OF z this] obtain cname party where
      "getCandidate inst s electionId (cd_id c) = Inr (cd_id c, cname, party, 0)" by blast
    moreover have "getCandidate inst s electionId (cd_id c) =
        Inr (cd_id c, cd_name c, cd_party c, cd_votes c)"
      using f c by (simp add: read_from_def sorted_def)
    ultimately show "cd_votes c = 0" by simp
  qed
  then have t: "t = 0" using t0 by (simp add: sorted_def)
  note view = VoterApp_viewElectionResults_of_loop [OF e b v]
  have voter: "\<exists>r. VoterApp_viewElectionResults inst s electionId = Inr r
            \<and> vresults_totalVotes r = 0 \<and> length (vresults_rows r) = candidateCount
            \<and> (\<forall>row\<in>set (vresults_rows r). vrow_percentage row = Number 0)"
    unfolding view using len t by (simp add: sorted_def results_percentage_def)
  have admin: "\<exists>cands. updateLiveTally inst s electionId panel =
                        displayTallyResults name cands 0 panel
               \<and> length cands = candidateCount" if "0 < candidateCount"
  proof -
    have "toNumber candidateCount = Inr candidateCount"
      using b(3) by (simp add: toNumber_def)
    then have "updateLiveTally inst s electionId panel = displayTallyResults name sorted 0 panel"
      using that by (simp add: updateLiveTally_def e g t sorted_def)
    with len show ?thesis by blast
  qed
  from voter admin show ?thesis by blast
qed

lemma small_view:
  "VoterApp_viewElectionResults (ledger_contract 15) small_ledger 1 =
     Inr \<lparr>vresults_name = ''Chair'', vresults_startTime = 100, vresults_endTime = 200,
          vresults_rows =
            [\<lparr>vrow_id = 2, vrow_name = ''Hal'', vrow_party = ''Blue'', vrow_votes = 2,
              vrow_percentage = results_percentage 2 3\<rparr>,
             \<lparr>vrow_id = 1, vrow_name = ''Gus'', vrow_party = ''Red'', vrow_votes = 1,
              vrow_percentage = results_percentage 1 3\<rparr>],
          vresults_totalVotes = 3\<rparr>"
  by (simp add: VoterApp_viewElectionResults_def VoterApp_viewElectionResults_loop.simps
      small_eval js_sort_def by_votes_desc_def numeral_3_eq_3)

lemma small_tally:
  "updateLiveTally (ledger_contract 15) small_ledger 1
     \<lparr>tallyMessage_text = '''', tallyMessage_shown = True, tallyCards_shown = False,
      tallyCards_title = '''', tallyCards_cards = []\<rparr> =
   \<lparr>tallyMessage_text = '''', tallyMessage_shown = False, tallyCards_shown = True,
    tallyCards_title = ''Live Results: Chair'',
    tallyCards_cards =
      [\<lparr>card_name = ''Hal'', card_party = ''Blue'', card_votes = 2,
        card_percentage = tally_percentage 2 3\<rparr>,
       \<lparr>card_name = ''Gus'', card_party = ''Red'', card_votes = 1,
        card_percentage = tally_percentage 1 3\<rparr>]\<rparr>"
  by (simp add: updateLiveTally_def getCandidatesData_def getCandidatesData_loop.simps
      displayTallyResults_def small_eval js_sort_def by_votes_desc_def numeral_3_eq_3)

lemma small_no_votes:
  "getElection (ledger_contract 15) small_ledger 2 = Inr (2, ''Treasurer'', 100, 200, 2)"
  "\<forall>i\<in>{1..2}. \<exists>cname party.
      getCandidate (ledger_contract 15) small_ledger 2 i = Inr (i, cname, party, 0)"
proof -
  show "getElection (ledger_contract 15) small_ledger 2 = Inr (2, ''Treasurer'', 100, 200, 2)"
    by (simp add: small_eval)
  show "\<forall>i\<in>{1..2}. \<exists>cname party.
      getCandidate (ledger_contract 15) small_ledger 2 i = Inr (i, cname, party, 0)"
  proof
    fix i :: nat
    assume "i \<in> {1..2}"
    then consider "i = 1" | "i = 2" by force
    then show "\<exists>cname party.
      getCandidate (ledger_contract 15) small_ledger 2 i = Inr (i, cname, party, 0)"
      by cases (simp_all add: small_eval)
  qed
qed

text \<open>
  Claim C6, as amended. With no votes the percentage of every candidate is the number 0:
  nothing is divided, and both views are displayed as usual: when every candidate of an
  election is returned with 0 votes, the voter's results are a table (not an error) with
  total 0 and percentage 0 in every row, and the admin tally is displayed with total 0.
  With votes, the percentage is \<open>votes / totalVotes * 100\<close> computed in double precision
  and then rounded by \<^verbatim>\<open>toFixed\<close>, to one decimal in the admin tally and to two in the
  voter's results; it lies within 0.05 (0.005) of the exact quotient, up to the rounding
  of the two floating point operations. Every card of the admin tally carries the first,
  for the card's votes and the displayed total, and every row of the voter's results the
  second, for the row's votes and the total of the results.
\<close>

theorem percentage_shown:
  "(totalVotes = 0 \<longrightarrow>
      tally_percentage votes totalVotes = Number 0
      \<and> results_percentage votes totalVotes = Number 0)
   \<and> (0 < totalVotes \<longrightarrow>
      (\<exists>n. tally_percentage votes totalVotes = Decimal n 1)
      \<and> \<bar>percentage_value (tally_percentage votes totalVotes)
            - of_nat votes / of_nat totalVotes * 100\<bar>
          \<le> 1 / 20 + of_nat votes / of_nat totalVotes * 100 / 2 ^ 51
      \<and> (\<exists>n. results_percentage votes totalVotes = Decimal n 2)
      \<and> \<bar>percentage_value (results_percentage votes totalVotes)
            - of_nat votes / of_nat totalVotes * 100\<bar>
          \<le> 1 / 200 + of_nat votes / of_nat totalVotes * 100 / 2 ^ 51)
   \<and> map card_percentage
        (tallyCards_cards (displayTallyResults title cands totalVotes panel)) =
      map (\<lambda>candidate. tally_percentage (cd_votes candidate) totalVotes) cands
   \<and> tallyCards_shown (displayTallyResults title cands totalVotes panel)
   \<and> \<not> tallyMessage_shown (displayTallyResults title cands totalVotes panel)
   \<and> (\<forall>r. VoterApp_viewElectionResults inst s electionId = Inr r \<longrightarrow>
        (\<forall>row\<in>set (vresults_rows r).
           vrow_percentage row = results_percentage (vrow_votes row) (vresults_totalVotes r)))
   \<and> (\<forall>e0 name startTime endTime candidateCount.
        getElection inst s electionId = Inr (e0, name, startTime, endTime, candidateCount)
        \<and> startTime < 2 ^ 53 \<and> endTime < 2 ^ 53 \<and> candidateCount < 2 ^ 53
        \<and> (\<forall>i\<in>{1..candidateCount}. \<exists>cname party.
              getCandidate inst s electionId i = Inr (i, cname, party, 0))
        \<longrightarrow>
        (\<exists>r. VoterApp_viewElectionResults inst s electionId = Inr r
            \<and> vresults_totalVotes r = 0 \<and> length (vresults_rows r) = candidateCount
            \<and> (\<forall>row\<in>set (vresults_rows r). vrow_percentage row = Number 0))
        \<and> (0 < candidateCount \<longrightarrow>
            (\<exists>shown. updateLiveTally inst s electionId panel =
                        displayTallyResults name shown 0 panel
               \<and> length shown = candidateCount)))"
proof -
  note v = percentage_values [of totalVotes votes title cands panel]
  have p: "\<forall>r. VoterApp_viewElectionResults inst s electionId = Inr r \<longrightarrow>
        (\<forall>row\<in>set (vresults_rows r).
           vrow_percentage row = results_percentage (vrow_votes row) (vresults_totalVotes r))"
    using VoterApp_viewElectionResults_percentage [of inst s electionId] by blast
  have z: "(\<exists>r. VoterApp_viewElectionResults inst s electionId = Inr r
            \<and> vresults_totalVotes r = 0 \<and> length (vresults_rows r) = candidateCount
            \<and> (\<forall>row\<in>set (vresults_rows r). vrow_percentage row = Number 0))
        \<and> (0 < candidateCount \<longrightarrow>
            (\<exists>shown. updateLiveTally inst s electionId panel =
                        displayTallyResults name shown 0 panel
               \<and> length shown = candidateCount))"
    if "getElection inst s electionId = Inr (e0, name, startTime, endTime, candidateCount)
        \<and> startTime < 2 ^ 53 \<and> endTime < 2 ^ 53 \<and> candidateCount < 2 ^ 53
        \<and> (\<forall>i\<in>{1..candidateCount}. \<exists>cname party.
              getCandidate inst s electionId i = Inr (i, cname, party, 0))"
    for e0 name startTime endTime candidateCount
    using that by (intro no_votes_views) blast+
  from v p z show ?thesis by blast
qed

theorem percentage_shown_witness:
  "tally_percentage 0 0 = Number 0
   \<and> results_percentage 0 0 = Number 0
   \<and> \<bar>percentage_value (tally_percentage 1 3) - of_nat 1 / of_nat 3 * 100\<bar>
        \<le> 1 / 20 + of_nat 1 / of_nat 3 * 100 / 2 ^ 51
   \<and> \<bar>percentage_value (results_percentage 1 3) - of_nat 1 / of_nat 3 * 100\<bar>
        \<le> 1 / 200 + of_nat 1 / of_nat 3 * 100 / 2 ^ 51
   \<and> (\<exists>r. VoterApp_viewElectionResults (ledger_contract 15) small_ledger 1 = Inr r
        \<and> map vrow_percentage (vresults_rows r) =
            [results_percentage 2 3, results_percentage 1 3])
   \<and> (\<exists>r. VoterApp_viewElectionResults (ledger_contract 15) small_ledger 2 = Inr r
        \<and> vresults_totalVotes r = 0 \<and> length (vresults_rows r) = 2
        \<and> (\<forall>row\<in>set (vresults_rows r). vrow_percentage row = Number 0))
   \<and> (\<exists>shown. updateLiveTally (ledger_contract 15) small_ledger 2 blank_panel =
          displayTallyResults ''Treasurer'' shown 0 blank_panel
        \<and> length shown = 2)"
proof -
  note a = percentage_shown [of 0 0 "''x''" "[]" blank_panel "ledger_contract 15" small_ledger 2]
  note b = percentage_shown [of 3 1 "''x''" "[]" blank_panel "ledger_contract 15" small_ledger 1]
  have 1: "tally_percentage 0 0 = Number 0 \<and> results_percentage 0 0 = Number 0"
    using a by simp
  have 2: "\<bar>percentage_value (tally_percentage 1 3) - of_nat 1 / of_nat 3 * 100\<bar>
        \<le> 1 / 20 + of_nat 1 / of_nat 3 * 100 / 2 ^ 51
     \<and> \<bar>percentage_value (results_percentage 1 3) - of_nat 1 / of_nat 3 * 100\<bar>
        \<le> 1 / 200 + of_nat 1 / of_nat 3 * 100 / 2 ^ 51"
    using b by simp
  have 3: "\<exists>r. VoterApp_viewElectionResults (ledger_contract 15) small_ledger 1 = Inr r
        \<and> map vrow_percentage (vresults_rows r) =
            [results_percentage 2 3, results_percentage 1 3]"
    using small_view by simp
  have h: "getElection (ledger_contract 15) small_ledger 2 = Inr (2, ''Treasurer'', 100, 200, 2)
        \<and> (100::nat) < 2 ^ 53 \<and> (200::nat) < 2 ^ 53 \<and> (2::nat) < 2 ^ 53
        \<and> (\<forall>i\<in>{1..2}. \<exists>cname party.
              getCandidate (ledger_contract 15) small_ledger 2 i = Inr (i, cname, party, 0))"
    using small_no_votes by simp
  from a have "\<forall>e0 name startTime endTime candidateCount.
        getElection (ledger_contract 15) small_ledger 2 =
          Inr (e0, name, startTime, endTime, candidateCount)
        \<and> startTime < 2 ^ 53 \<and> endTime < 2 ^ 53 \<and> candidateCount < 2 ^ 53
        \<and> (\<forall>i\<in>{1..candidateCount}. \<exists>cname party.
              getCandidate (ledger_contract 15) small_ledger 2 i = Inr (i, cname, party, 0))
        \<longrightarrow>
        (\<exists>r. VoterApp_viewElectionResults (ledger_contract 15) small_ledger 2 = Inr r
            \<and> vresults_totalVotes r = 0 \<and> length (vresults_rows r) = candidateCount
            \<and> (\<forall>row\<in>set (vresults_rows r). vrow_percentage row = Number 0))
        \<and> (0 < candidateCount \<longrightarrow>
            (\<exists>shown. updateLiveTally (ledger_contract 15) small_ledger 2 blank_panel =
                        displayTallyResults name shown 0 blank_panel
               \<and> length shown = candidateCount))"
    by blast
  from this [rule_format, OF h]
  have 4: "(\<exists>r. VoterApp_viewElectionResults (ledger_contract 15) small_ledger 2 = Inr r
        \<and> vresults_totalVotes r = 0 \<and> length (vresults_rows r) = 2
        \<and> (\<forall>row\<in>set (vresults_rows r). vrow_percentage row = Number 0))
     \<and> (\<exists>shown. updateLiveTally (ledger_contract 15) small_ledger 2 blank_panel =
          displayTallyResults ''Treasurer'' shown 0 blank_panel
        \<and> length shown = 2)"
    by simp
  from 1 2 3 4 show ?thesis by blast
qed

text \<open>
  The claim as stated, that the percentage equals \<open>votes / totalVotes * 100\<close>, fails for
  one vote out of three: the admin tally shows 33.3 and the voter's table 33.33, also in
  the views of the election of the example.
\<close>

theorem percentage_exact_counterexample:
  "tally_percentage 1 3 = Decimal 333 1
   \<and> results_percentage 1 3 = Decimal 3333 2
   \<and> percentage_value (tally_percentage 1 3) \<noteq> of_nat 1 / of_nat 3 * 100
   \<and> percentage_value (results_percentage 1 3) \<noteq> of_nat 1 / of_nat 3 * 100
   \<and> vrow_votes (vresults_rows (projr
         (VoterApp_viewElectionResults (ledger_contract 15) small_ledger 1)) ! 1) = 1
   \<and> vresults_totalVotes (projr
         (VoterApp_viewElectionResults (ledger_contract 15) small_ledger 1)) = 3
   \<and> vrow_percentage (vresults_rows (projr
         (VoterApp_viewElectionResults (ledger_contract 15) small_ledger 1)) ! 1) =
       Decimal 3333 2
   \<and> card_percentage (tallyCards_cards
         (updateLiveTally (ledger_contract 15) small_ledger 1 blank_panel) ! 1) =
       Decimal 333 1"
proof -
  have p: "tally_percentage 1 3 = Decimal 333 1" "results_percentage 1 3 = Decimal 3333 2"
    using third_percent by (simp_all add: tally_percentage_def results_percentage_def)
  have q: "percentage_value (Decimal 333 1) \<noteq> of_nat 1 / of_nat 3 * 100"
    "percentage_value (Decimal 3333 2) \<noteq> of_nat 1 / of_nat 3 * 100"
    by simp_all
  have v: "vrow_votes (vresults_rows (projr
         (VoterApp_viewElectionResults (ledger_contract 15) small_ledger 1)) ! 1) = 1"
    "vresults_totalVotes (projr
         (VoterApp_viewElectionResults (ledger_contract 15) small_ledger 1)) = 3"
    "vrow_percentage (vresults_rows (projr
         (VoterApp_viewElectionResults (ledger_contract 15) small_ledger 1)) ! 1) =
       results_percentage 1 3"
    using small_view by simp_all
  have c: "card_percentage (tallyCards_cards
         (updateLiveTally (ledger_contract 15) small_ledger 1 blank_panel) ! 1) =
       tally_percentage 1 3"
    using small_tally by (simp add: blank_panel_def)
  show ?thesis
    unfolding v c p using q by simp
qed

subsection \<open>The vote control of the voter's list\<close>













subsection \<open>Validation of an election-creation request\<close>

text \<open>
  What \<^verbatim>\<open>validateFormData\<close> does: a request with dates is accepted exactly when
  \<open>now \<le> startDate < endDate\<close> and there are at least two candidates, and a request that
  is not accepted ends the flow before any transaction is sent.
\<close>

lemma validation_window:
  "(startDate fd = Finite st \<and> endDate fd = Finite en \<longrightarrow>
      (validateFormData fd now = Accepted) = (now \<le> st \<and> st < en \<and> 2 \<le> length (candidates fd))
      \<and> (st < now \<longrightarrow> validateFormData fd now = Refused ''Start date must be in the future'')
      \<and> (now \<le> st \<and> en \<le> st \<longrightarrow>
           validateFormData fd now = Refused ''End date must be after start date''))
   \<and> (validateFormData (getFormData form) now \<noteq> Accepted \<longrightarrow>
        (\<exists>message. AdminApp_createElection inst s form now = (s, [], Rejected message)))"
proof -
  have "\<exists>message. AdminApp_createElection inst s form now = (s, [], Rejected message)"
    if "validateFormData (getFormData form) now \<noteq> Accepted"
    using that by (cases "validateFormData (getFormData form) now")
      (simp_all add: AdminApp_createElection_def Let_def)
  then show ?thesis
    by (auto simp: validateFormData_def)
qed

lemma validation_window_example:
  "validateFormData (getFormData demo_form) 1001 = Refused ''Start date must be in the future''
   \<and> AdminApp_createElection (ledger_contract 15) demo_ledger demo_form 1001 =
       (demo_ledger, [], Rejected ''Start date must be in the future'')
   \<and> validateFormData (getFormData demo_form) 1000 = Accepted"
proof -
  have d: "startDate (getFormData demo_form) = Finite 1000 \<and>
      endDate (getFormData demo_form) = Finite 2000"
    by (simp add: demo_formData)
  note w = validation_window [of "getFormData demo_form" 1000 2000 1001 demo_form
      "ledger_contract 15" demo_ledger]
  note v = validation_window [of "getFormData demo_form" 1000 2000 1000 demo_form
      "ledger_contract 15" demo_ledger]
  have 1: "validateFormData (getFormData demo_form) 1001 = Refused ''Start date must be in the future''"
    using w d by simp
  then have "validateFormData (getFormData demo_form) 1001 \<noteq> Accepted" by simp
  with w obtain message where
    m: "AdminApp_createElection (ledger_contract 15) demo_ledger demo_form 1001 =
       (demo_ledger, [], Rejected message)" by blast
  then have "message = ''Start date must be in the future''"
    using 1 by (simp add: AdminApp_createElection_def Let_def)
  with m have 2: "AdminApp_createElection (ledger_contract 15) demo_ledger demo_form 1001 =
       (demo_ledger, [], Rejected ''Start date must be in the future'')" by simp
  have 3: "validateFormData (getFormData demo_form) 1000 = Accepted"
    using v d by (simp add: demo_formData)
  from 1 2 3 show ?thesis by simp
qed

text \<open>
  Claim C3. The claim asks that a request whose start time is not strictly after the
  current time be rejected, as the message of the check says (\<^verbatim>\<open>Start date must be in
  the future\<close>). The check compares with \<^verbatim>\<open><\<close>: the example form, whose start time
  equals the current time, is accepted, and the creating transaction is sent.
\<close>

theorem validation_accepts_start_now:
  "validateFormData (getFormData demo_form) 1000 = Accepted
   \<and> startDate (getFormData demo_form) = Finite 1000
   \<and> fst (snd (AdminApp_createElection (ledger_contract 15) demo_ledger demo_form 1000)) \<noteq> []"
  by (simp add: demo_formData validateFormData_def AdminApp_createElection_def Let_def
      split: prod.splits sum.splits)

subsection \<open>The candidates of a new election\<close>

lemma entry_rebuild:
  "\<lparr>entry_name = entry_name entry, entry_party = entry_party entry\<rparr> = entry"
  by (cases entry) simp

lemma collectCandidates_loop_eq:
  "i \<le> Suc (candidateCounter form) \<Longrightarrow>
   collectCandidates_loop form i acc =
     acc @ concat (map (complete_entries form) [i..<Suc (candidateCounter form)])"
proof (induction form i acc rule: collectCandidates_loop.induct)
  case (1 form i acc)
  show ?case
  proof (cases "i \<le> candidateCounter form")
    case False
    then have "i = Suc (candidateCounter form)" using "1.prems" by simp
    then show ?thesis
      by (subst collectCandidates_loop.simps) simp
  next
    case True
    then have u: "[i..<Suc (candidateCounter form)] = i # [i + 1..<Suc (candidateCounter form)]"
      by (simp add: upt_conv_Cons)
    have n: "i + 1 \<le> Suc (candidateCounter form)" using True by simp
    have step: "concat (map (complete_entries form) [i..<Suc (candidateCounter form)]) =
        complete_entries form i @
        concat (map (complete_entries form) [i + 1..<Suc (candidateCounter form)])"
      by (simp only: u list.map concat.simps)
    show ?thesis
    proof (cases "candidate_rows form i")
      case None
      have ce: "complete_entries form i = []"
        by (simp add: complete_entries_def None)
      have "collectCandidates_loop form i acc = collectCandidates_loop form (i + 1) acc"
        by (subst collectCandidates_loop.simps) (simp add: True None)
      with "1.IH"(1) [OF True None n] show ?thesis
        by (simp only: step ce append_Nil)
    next
      case (Some entry)
      show ?thesis
      proof (cases "entry_name entry \<noteq> [] \<and> entry_party entry \<noteq> []")
        case c: True
        have ce: "complete_entries form i = [entry]"
          using c by (simp add: complete_entries_def Some)
        have "collectCandidates_loop form i acc = collectCandidates_loop form (i + 1) (acc @ [entry])"
          using c by (subst collectCandidates_loop.simps) (simp add: True Some entry_rebuild)
        moreover have "collectCandidates_loop form (i + 1) (acc @ [entry]) =
            (acc @ [entry]) @ concat (map (complete_entries form) [i + 1..<Suc (candidateCounter form)])"
          using "1.IH"(2) [OF True Some c n] by (simp only: entry_rebuild)
        ultimately show ?thesis
          by (simp only: step ce append_assoc append_Cons append_Nil)
      next
        case c: False
        have ce: "complete_entries form i = []"
          using c by (simp add: complete_entries_def Some)
        have "collectCandidates_loop form i acc = collectCandidates_loop form (i + 1) acc"
          using c by (subst collectCandidates_loop.simps) (auto simp: True Some)
        with "1.IH"(3) [OF True Some c n] show ?thesis
          by (simp only: step ce append_Nil)
      qed
    qed
  qed
qed

lemma collectCandidates_eq:
  "collectCandidates form =
     concat (map (complete_entries form) [1..<Suc (candidateCounter form)])"
  unfolding collectCandidates_def by (subst collectCandidates_loop_eq) simp_all

lemma collectCandidates_nonempty:
  "c \<in> set (collectCandidates form) \<Longrightarrow> entry_name c \<noteq> [] \<and> entry_party c \<noteq> []"
  unfolding collectCandidates_eq
  by (auto simp: complete_entries_def split: option.splits if_splits)

lemma addCandidatesToElection_loop_calls:
  "addCandidatesToElection_loop inst s electionId cands i calls = (s', calls', out) \<Longrightarrow>
   i \<le> length cands \<Longrightarrow>
   \<exists>k. i \<le> k \<and> k \<le> length cands
     \<and> calls' = calls @ map (call_of electionId) (take (k - i) (drop i cands))
     \<and> (out = Inr () \<longrightarrow> k = length cands)"
proof (induction inst s electionId cands i calls rule: addCandidatesToElection_loop.induct)
  case (1 inst s electionId cands i calls)
  show ?case
  proof (cases "i < length cands")
    case False
    then have "i = length cands" using "1.prems"(2) by simp
    moreover have "calls' = calls"
      using "1.prems"(1) False by (subst (asm) addCandidatesToElection_loop.simps) simp
    ultimately show ?thesis by (intro exI [of _ i]) simp
  next
    case True
    let ?c = "cands ! i"
    let ?sent = "calls @ [AddCandidate electionId (entry_name ?c) (entry_party ?c)]"
    obtain s1 r where a: "addCandidate inst s electionId (entry_name ?c) (entry_party ?c) = (s1, r)"
      by (cases "addCandidate inst s electionId (entry_name ?c) (entry_party ?c)")
    have d: "drop i cands = ?c # drop (Suc i) cands"
      using True by (simp add: Cons_nth_drop_Suc)
    show ?thesis
    proof (cases r)
      case (Inl e)
      have "calls' = ?sent" "out = Inl e"
        using "1.prems"(1) True a Inl
        by (subst (asm) addCandidatesToElection_loop.simps, simp add: Let_def)+
      then show ?thesis
        using True by (intro exI [of _ "Suc i"]) (simp add: d call_of_def)
    next
      case (Inr u)
      have l: "addCandidatesToElection_loop inst s1 electionId cands (i + 1) ?sent = (s', calls', out)"
        using "1.prems"(1) True a Inr
        by (subst (asm) addCandidatesToElection_loop.simps) (simp add: Let_def)
      have n: "i + 1 \<le> length cands" using True by simp
      from "1.IH" [OF True refl refl a [symmetric] Inr l n]
      obtain k where k: "i + 1 \<le> k" "k \<le> length cands"
        "calls' = ?sent @ map (call_of electionId) (take (k - (i + 1)) (drop (i + 1) cands))"
        "out = Inr () \<longrightarrow> k = length cands"
        by blast
      have "take (k - i) (drop i cands) = ?c # take (k - (i + 1)) (drop (i + 1) cands)"
        using k(1) d by (simp add: take_Cons')
      then have "calls' = calls @ map (call_of electionId) (take (k - i) (drop i cands))"
        using k(3) by (simp add: call_of_def)
      with k show ?thesis by (intro exI [of _ k]) simp
    qed
  qed
qed

lemma ledger_contract_addCandidate:
  assumes "addCandidate (ledger_contract dt) L eid n p = (L1, Inr u)"
  shows "0 < eid \<and> eid \<le> length (elections L)
     \<and> length (elections L1) = length (elections L)
     \<and> le_candidates (elections L1 ! (eid - 1)) =
         le_candidates (elections L ! (eid - 1)) @
           [\<lparr>lc_name = n, lc_party = p, lc_voteCount = 0\<rparr>]"
  using assms
  by (auto simp: ledger_contract_def ledger_addCandidate_def mined_def Let_def
      split: sum.splits if_splits)

lemma addCandidatesToElection_loop_ledger:
  "addCandidatesToElection_loop (ledger_contract dt) L eid cands i calls = (L', calls', Inr ()) \<Longrightarrow>
   i \<le> length cands \<Longrightarrow>
   length (elections L') = length (elections L)
   \<and> le_candidates (elections L' ! (eid - 1)) =
       le_candidates (elections L ! (eid - 1)) @ map ledger_candidate_of (drop i cands)"
proof (induction "ledger_contract dt" L eid cands i calls
    rule: addCandidatesToElection_loop.induct)
  case (1 L eid cands i calls)
  show ?case
  proof (cases "i < length cands")
    case False
    then have "i = length cands" using "1.prems"(2) by simp
    moreover have "L' = L"
      using "1.prems"(1) False by (subst (asm) addCandidatesToElection_loop.simps) simp
    ultimately show ?thesis by simp
  next
    case True
    let ?c = "cands ! i"
    let ?sent = "calls @ [AddCandidate eid (entry_name ?c) (entry_party ?c)]"
    obtain L1 r where a:
      "addCandidate (ledger_contract dt) L eid (entry_name ?c) (entry_party ?c) = (L1, r)"
      by (cases "addCandidate (ledger_contract dt) L eid (entry_name ?c) (entry_party ?c)")
    have d: "drop i cands = ?c # drop (Suc i) cands"
      using True by (simp add: Cons_nth_drop_Suc)
    show ?thesis
    proof (cases r)
      case (Inl e)
      have "Inl e = (Inr () :: error + unit)"
        using "1.prems"(1) True a Inl
        by (subst (asm) addCandidatesToElection_loop.simps) (simp add: Let_def)
      then show ?thesis by simp
    next
      case (Inr u)
      have l: "addCandidatesToElection_loop (ledger_contract dt) L1 eid cands (i + 1) ?sent
          = (L', calls', Inr ())"
        using "1.prems"(1) True a Inr
        by (subst (asm) addCandidatesToElection_loop.simps) (simp add: Let_def)
      have n: "i + 1 \<le> length cands" using True by simp
      from "1.hyps" [OF True refl refl a [symmetric] Inr l n]
      have IH: "length (elections L') = length (elections L1)"
        "le_candidates (elections L' ! (eid - 1)) =
           le_candidates (elections L1 ! (eid - 1)) @ map ledger_candidate_of (drop (i + 1) cands)"
        by simp_all
      from ledger_contract_addCandidate [OF a [unfolded Inr]]
      have s: "length (elections L1) = length (elections L)"
        "le_candidates (elections L1 ! (eid - 1)) =
           le_candidates (elections L ! (eid - 1)) @
             [\<lparr>lc_name = entry_name ?c, lc_party = entry_party ?c, lc_voteCount = 0\<rparr>]"
        by simp_all
      show ?thesis
        using IH s by (simp add: d ledger_candidate_of_def)
    qed
  qed
qed

lemma ledger_contract_createElection:
  assumes "createElection (ledger_contract dt) L name st en = (L1, Inr logged)"
  shows "logged = Suc (length (elections L))
     \<and> length (elections L1) = Suc (length (elections L))
     \<and> le_candidates (elections L1 ! length (elections L)) = []"
  using assms
  by (auto simp: ledger_contract_def ledger_createElection_def mined_def Let_def
      split: sum.splits if_splits)

lemma created_candidates:
  assumes "AdminApp_createElection (ledger_contract dt) L form now = (L', calls, Created electionId)"
  shows "electionId = Suc (length (elections L))
     \<and> length (elections L') = electionId
     \<and> le_candidates (elections L' ! (electionId - 1)) =
         map ledger_candidate_of (collectCandidates form)"
proof -
  let ?fd = "getFormData form"
  have cs: "candidates ?fd = collectCandidates form" by (simp add: getFormData_def)
  from assms obtain L1 logged L2 added u where
    c: "createElection (ledger_contract dt) L (electionName ?fd) (startDate ?fd) (endDate ?fd)
          = (L1, Inr logged)"
    and t: "toNumber logged = Inr electionId"
    and a: "addCandidatesToElection (ledger_contract dt) L1 electionId (candidates ?fd)
          = (L', added, Inr u)"
    by (auto simp: AdminApp_createElection_def Let_def
        split: validation.splits prod.splits sum.splits)
  from t have e: "electionId = logged"
    by (simp add: toNumber_def split: if_splits)
  from ledger_contract_createElection [OF c]
  have 1: "logged = Suc (length (elections L))"
    "length (elections L1) = Suc (length (elections L))"
    "le_candidates (elections L1 ! length (elections L)) = []"
    by simp_all
  have "u = ()" by simp
  with a have "addCandidatesToElection_loop (ledger_contract dt) L1 electionId
      (collectCandidates form) 0 [] = (L', added, Inr ())"
    by (simp add: addCandidatesToElection_def cs)
  from addCandidatesToElection_loop_ledger [OF this]
  have 2: "length (elections L') = length (elections L1)"
    "le_candidates (elections L' ! (electionId - 1)) =
       le_candidates (elections L1 ! (electionId - 1)) @
         map ledger_candidate_of (collectCandidates form)"
    by simp_all
  show ?thesis
    using 1 2 e by simp
qed

lemma addCandidatesToElection_calls:
  assumes "addCandidatesToElection inst s electionId cands = (s', calls, out)"
  shows "\<exists>k. k \<le> length cands \<and> calls = map (call_of electionId) (take k cands)
     \<and> (out = Inr () \<longrightarrow> k = length cands)"
  using addCandidatesToElection_loop_calls [OF assms [unfolded addCandidatesToElection_def]]
  by simp

lemma createElection_flow_calls:
  assumes "AdminApp_createElection inst s form now = (s', calls, out)"
  shows "(\<exists>message. s' = s \<and> calls = [] \<and> out = Rejected message
            \<and> validateFormData (getFormData form) now = Refused message)
     \<or> (validateFormData (getFormData form) now = Accepted
        \<and> (\<exists>electionId k. k \<le> length (collectCandidates form)
             \<and> calls = CreateElection (form_electionName form) (form_startDate form)
                  (form_endDate form)
                 # map (call_of electionId) (take k (collectCandidates form))
             \<and> (out = Created electionId \<longrightarrow> k = length (collectCandidates form))
             \<and> (\<forall>e. out = Created e \<longrightarrow> e = electionId)))"
proof (cases "validateFormData (getFormData form) now")
  case (Refused message)
  then have "AdminApp_createElection inst s form now = (s, [], Rejected message)"
    by (simp add: AdminApp_createElection_def Let_def)
  with assms have "s' = s" "calls = []" "out = Rejected message" by simp_all
  with Refused show ?thesis by blast
next
  case Accepted
  define fd where "fd = getFormData form"
  define sent where "sent = [CreateElection (electionName fd) (startDate fd) (endDate fd)]"
  have fd: "electionName fd = form_electionName form" "startDate fd = form_startDate form"
    "endDate fd = form_endDate form" "candidates fd = collectCandidates form"
    by (simp_all add: getFormData_def fd_def)
  obtain s1 r where c:
    "createElection inst s (electionName fd) (startDate fd) (endDate fd) = (s1, r)"
    by (cases "createElection inst s (electionName fd) (startDate fd) (endDate fd)")
  have flow: "AdminApp_createElection inst s form now =
    (case r of
       Inl e \<Rightarrow> (s1, sent, Failed e)
     | Inr logged \<Rightarrow>
         (case toNumber logged of
            Inl e \<Rightarrow> (s1, sent, Failed e)
          | Inr electionId \<Rightarrow>
              (case addCandidatesToElection inst s1 electionId (candidates fd) of
                 (s2, added, Inl e) \<Rightarrow> (s2, sent @ added, Failed e)
               | (s2, added, Inr u) \<Rightarrow> (s2, sent @ added, Created electionId))))"
    using Accepted c unfolding fd_def sent_def
    by (simp add: AdminApp_createElection_def Let_def)
  have sent': "sent = [CreateElection (form_electionName form) (form_startDate form)
      (form_endDate form)]"
    by (simp add: sent_def fd)
  have early: ?thesis if "calls = sent" "\<forall>e. out \<noteq> Created e"
  proof -
    have "0 \<le> length (collectCandidates form)
       \<and> calls = CreateElection (form_electionName form) (form_startDate form)
            (form_endDate form) # map (call_of 0) (take 0 (collectCandidates form))
       \<and> (out = Created 0 \<longrightarrow> 0 = length (collectCandidates form))
       \<and> (\<forall>e. out = Created e \<longrightarrow> e = 0)"
      using that by (simp add: sent')
    with Accepted show ?thesis by blast
  qed
  show ?thesis
  proof (cases r)
    case (Inl e)
    have "(s', calls, out) = (s1, sent, Failed e)"
      using assms unfolding flow Inl by simp
    then have "calls = sent" "\<forall>e. out \<noteq> Created e" by simp_all
    then show ?thesis by (rule early)
  next
    case (Inr logged)
    show ?thesis
    proof (cases "toNumber logged")
      case e: (Inl e)
      have "(s', calls, out) = (s1, sent, Failed e)"
        using assms unfolding flow Inr by (simp add: e)
      then have "calls = sent" "\<forall>e. out \<noteq> Created e" by simp_all
      then show ?thesis by (rule early)
    next
      case t: (Inr electionId)
      obtain s2 added r2 where a:
        "addCandidatesToElection inst s1 electionId (candidates fd) = (s2, added, r2)"
        by (cases "addCandidatesToElection inst s1 electionId (candidates fd)")
      from addCandidatesToElection_calls [OF a] obtain k where
        k: "k \<le> length (candidates fd)"
        "added = map (call_of electionId) (take k (candidates fd))"
        "r2 = Inr () \<longrightarrow> k = length (candidates fd)"
        by blast
      have "(s', calls, out) =
          (s2, sent @ added, case r2 of Inl e \<Rightarrow> Failed e | Inr u \<Rightarrow> Created electionId)"
        using assms unfolding flow Inr by (cases r2) (simp_all add: t a)
      then have res: "calls = sent @ added"
        "out = (case r2 of Inl e \<Rightarrow> Failed e | Inr u \<Rightarrow> Created electionId)"
        by simp_all
      have o1: "out = Created electionId \<longrightarrow> k = length (collectCandidates form)"
        using res(2) k(3) fd(4) by (cases r2) simp_all
      have o2: "\<forall>e. out = Created e \<longrightarrow> e = electionId"
        using res(2) by (cases r2) simp_all
      have main: "k \<le> length (collectCandidates form)"
        "calls = CreateElection (form_electionName form) (form_startDate form)
              (form_endDate form)
             # map (call_of electionId) (take k (collectCandidates form))"
        using k(1,2) res(1) by (simp_all add: sent' fd(4))
      show ?thesis
        apply (rule disjI2)
        apply (rule conjI [OF Accepted])
        apply (rule exI [of _ electionId])
        apply (rule exI [of _ k])
        apply (intro conjI main o1 o2)
        done
    qed
  qed
qed

lemma ledger_getCandidate_nth:
  "0 < e \<Longrightarrow> e \<le> length (elections L) \<Longrightarrow> 0 < k \<Longrightarrow>
   k \<le> length (le_candidates (elections L ! (e - 1))) \<Longrightarrow>
   ledger_getCandidate L e k =
     Inr (k, lc_name (le_candidates (elections L ! (e - 1)) ! (k - 1)),
          lc_party (le_candidates (elections L ! (e - 1)) ! (k - 1)),
          lc_voteCount (le_candidates (elections L ! (e - 1)) ! (k - 1)))"
  by (simp add: ledger_getCandidate_def Let_def)

text \<open>The ledger numbers the candidates of an election in the order they were added.\<close>

lemma ledger_sequential_ids:
  assumes "0 < e" "e \<le> length (elections L)"
  shows "\<forall>i\<in>{1..length (le_candidates (elections L ! (e - 1)))}.
     \<exists>name party votes. getCandidate (ledger_contract dt) L e i = Inr (i, name, party, votes)"
proof
  fix i assume "i \<in> {1..length (le_candidates (elections L ! (e - 1)))}"
  then have "0 < i" "i \<le> length (le_candidates (elections L ! (e - 1)))" by auto
  from ledger_getCandidate_nth [OF assms this]
  show "\<exists>name party votes. getCandidate (ledger_contract dt) L e i = Inr (i, name, party, votes)"
    by (simp add: ledger_contract_def)
qed

lemma demo_created:
  "snd (AdminApp_createElection (ledger_contract 15) demo_ledger demo_form 160) =
     ([CreateElection ''Council'' (Finite 1000) (Finite 2000),
       AddCandidate 3 ''Dee'' ''Red'', AddCandidate 3 ''Fay'' ''Blue''], Created 3)"
  by (simp add: AdminApp_createElection_def demo_formData validateFormData_def Let_def
      ledger_contract_def ledger_createElection_def ledger_addCandidate_def mined_def
      addCandidatesToElection_def addCandidatesToElection_loop.simps demo_ledger_def
      toNumber_small)

lemma demo_short:
  "collectCandidates (demo_form\<lparr>candidateCounter := 3\<rparr>) =
     [\<lparr>entry_name = ''Dee'', entry_party = ''Red''\<rparr>]"
  by (simp add: collectCandidates_def collectCandidates_loop.simps demo_form_def)

text \<open>
  Claim C7. The collected candidates all have a non-empty name and a non-empty party; a
  form with fewer than two of them is rejected with the chain untouched and no transaction
  sent; and whenever the flow sends a transaction there are at least two collected
  candidates, and every candidate it submits is one of them.
\<close>

theorem candidate_batch:
  "(\<forall>c\<in>set (collectCandidates form). entry_name c \<noteq> [] \<and> entry_party c \<noteq> [])
   \<and> (length (collectCandidates form) < 2 \<longrightarrow>
        (\<exists>message. AdminApp_createElection inst s form now = (s, [], Rejected message)))
   \<and> (\<forall>s' calls out.
        AdminApp_createElection inst s form now = (s', calls, out) \<and> calls \<noteq> [] \<longrightarrow>
        2 \<le> length (collectCandidates form)
        \<and> (\<forall>electionId name party.
             AddCandidate electionId name party \<in> set calls \<longrightarrow>
             name \<noteq> [] \<and> party \<noteq> []
             \<and> \<lparr>entry_name = name, entry_party = party\<rparr> \<in> set (collectCandidates form)))"
proof (intro conjI ballI allI impI)
  fix c assume "c \<in> set (collectCandidates form)"
  then show "entry_name c \<noteq> []" "entry_party c \<noteq> []"
    by (simp_all add: collectCandidates_nonempty)
next
  assume "length (collectCandidates form) < 2"
  then have "validateFormData (getFormData form) now \<noteq> Accepted"
    by (simp add: validateFormData_def getFormData_def)
  then show "\<exists>message. AdminApp_createElection inst s form now = (s, [], Rejected message)"
    by (cases "validateFormData (getFormData form) now")
      (simp_all add: AdminApp_createElection_def Let_def)
next
  fix s' calls out
  assume a: "AdminApp_createElection inst s form now = (s', calls, out) \<and> calls \<noteq> []"
  from createElection_flow_calls [OF a [THEN conjunct1]] a
  obtain electionId k where
    v: "validateFormData (getFormData form) now = Accepted"
    and c: "calls = CreateElection (form_electionName form) (form_startDate form)
                  (form_endDate form)
                 # map (call_of electionId) (take k (collectCandidates form))"
    by blast
  from v show "2 \<le> length (collectCandidates form)"
    by (simp add: validateFormData_def getFormData_def split: if_splits)
  fix e name party
  assume "AddCandidate e name party \<in> set calls"
  then obtain x where x: "x \<in> set (take k (collectCandidates form))"
    "AddCandidate e name party = call_of electionId x"
    unfolding c by auto
  from x(1) have m: "x \<in> set (collectCandidates form)" by (rule in_set_takeD)
  from x(2) have nx: "name = entry_name x" "party = entry_party x"
    by (simp_all add: call_of_def)
  from collectCandidates_nonempty [OF m] show "name \<noteq> []" "party \<noteq> []"
    by (simp_all add: nx)
  show "\<lparr>entry_name = name, entry_party = party\<rparr> \<in> set (collectCandidates form)"
    using m by (simp add: nx entry_rebuild)
qed

theorem candidate_batch_witness:
  "collectCandidates (demo_form\<lparr>candidateCounter := 3\<rparr>) =
     [\<lparr>entry_name = ''Dee'', entry_party = ''Red''\<rparr>]
   \<and> AdminApp_createElection (ledger_contract 15) demo_ledger
        (demo_form\<lparr>candidateCounter := 3\<rparr>) 160 =
      (demo_ledger, [], Rejected ''Please add at least two candidates for the election'')
   \<and> entry_name (hd (collectCandidates demo_form)) \<noteq> []"
proof -
  note b = candidate_batch [of "demo_form\<lparr>candidateCounter := 3\<rparr>" "ledger_contract 15"
      demo_ledger 160]
  have "length (collectCandidates (demo_form\<lparr>candidateCounter := 3\<rparr>)) < 2"
    by (simp add: demo_short)
  with b obtain message where
    m: "AdminApp_createElection (ledger_contract 15) demo_ledger
        (demo_form\<lparr>candidateCounter := 3\<rparr>) 160 = (demo_ledger, [], Rejected message)"
    by blast
  have "validateFormData (getFormData (demo_form\<lparr>candidateCounter := 3\<rparr>)) 160 =
      Refused ''Please add at least two candidates for the election''"
    by (simp add: validateFormData_def getFormData_def demo_short) (simp add: demo_form_def)
  with m have "message = ''Please add at least two candidates for the election''"
    by (simp add: AdminApp_createElection_def Let_def)
  with m have 1: "AdminApp_createElection (ledger_contract 15) demo_ledger
        (demo_form\<lparr>candidateCounter := 3\<rparr>) 160 =
      (demo_ledger, [], Rejected ''Please add at least two candidates for the election'')"
    by simp
  have "hd (collectCandidates demo_form) \<in> set (collectCandidates demo_form)"
    by (simp add: demo_collect)
  with candidate_batch [of demo_form "ledger_contract 15" demo_ledger 160]
  have 2: "entry_name (hd (collectCandidates demo_form)) \<noteq> []"
    by blast
  from demo_short 1 2 show ?thesis by simp
qed

text \<open>
  Claim C10. The collected list is the complete rows of the form in ascending row index.
  The addition loop sends one \<^verbatim>\<open>addCandidate\<close> per entry, in list order, each on
  the chain state the previous one left, and stops at the first rejection. When the whole
  flow succeeds on the ledger, the new election has exactly the collected candidates, and
  its candidate with id \<open>k\<close> is the \<open>k\<close>-th entry of the list, with no votes.
\<close>

theorem sequential_candidates:
  "collectCandidates form =
     concat (map (complete_entries form) [1..<Suc (candidateCounter form)])
   \<and> (\<forall>s' calls out.
        addCandidatesToElection inst s electionId cands = (s', calls, out) \<longrightarrow>
        (\<exists>k. k \<le> length cands \<and> calls = map (call_of electionId) (take k cands)
           \<and> (out = Inr () \<longrightarrow> k = length cands)))
   \<and> (\<forall>L' calls created.
        AdminApp_createElection (ledger_contract dt) L form now = (L', calls, Created created)
        \<longrightarrow>
        created = Suc (length (elections L))
        \<and> calls = CreateElection (form_electionName form) (form_startDate form)
                    (form_endDate form)
                  # map (call_of created) (collectCandidates form)
        \<and> (\<exists>name startTime endTime.
             getElection (ledger_contract dt) L' created =
               Inr (created, name, startTime, endTime, length (collectCandidates form)))
        \<and> (\<forall>k\<in>{1..length (collectCandidates form)}.
             getCandidate (ledger_contract dt) L' created k =
               Inr (k, entry_name (collectCandidates form ! (k - 1)),
                    entry_party (collectCandidates form ! (k - 1)), 0)))"
proof (intro conjI allI impI)
  show "collectCandidates form =
     concat (map (complete_entries form) [1..<Suc (candidateCounter form)])"
    by (rule collectCandidates_eq)
next
  fix s' calls out
  assume "addCandidatesToElection inst s electionId cands = (s', calls, out)"
  then show "\<exists>k. k \<le> length cands \<and> calls = map (call_of electionId) (take k cands)
           \<and> (out = Inr () \<longrightarrow> k = length cands)"
    by (rule addCandidatesToElection_calls)
next
  fix L' calls created
  assume a: "AdminApp_createElection (ledger_contract dt) L form now = (L', calls, Created created)"
  note cc = created_candidates [OF a]
  have 1: "created = Suc (length (elections L))"
    using cc by blast
  have 2: "length (elections L') = created"
    using cc by blast
  have 3: "le_candidates (elections L' ! (created - 1)) =
         map ledger_candidate_of (collectCandidates form)"
    using cc by blast
  have 0: "0 < created" using 1 by simp
  show "created = Suc (length (elections L))" by (rule 1)
  from createElection_flow_calls [OF a]
  show "calls = CreateElection (form_electionName form) (form_startDate form)
                    (form_endDate form)
                  # map (call_of created) (collectCandidates form)"
    by auto
  have "getElection (ledger_contract dt) L' created =
      Inr (created, le_name (elections L' ! (created - 1)),
           le_startTime (elections L' ! (created - 1)),
           le_endTime (elections L' ! (created - 1)),
           length (le_candidates (elections L' ! (created - 1))))"
    using 0 2 by (simp add: ledger_contract_def ledger_getElection_def Let_def)
  then show "\<exists>name startTime endTime.
             getElection (ledger_contract dt) L' created =
               Inr (created, name, startTime, endTime, length (collectCandidates form))"
    unfolding 3 by simp
  show "\<forall>k\<in>{1..length (collectCandidates form)}.
             getCandidate (ledger_contract dt) L' created k =
               Inr (k, entry_name (collectCandidates form ! (k - 1)),
                    entry_party (collectCandidates form ! (k - 1)), 0)"
  proof
    fix k assume "k \<in> {1..length (collectCandidates form)}"
    then have k: "0 < k" "k \<le> length (collectCandidates form)" "k - 1 < length (collectCandidates form)"
      by auto
    have g: "getCandidate (ledger_contract dt) L' created k = ledger_getCandidate L' created k"
      by (simp add: ledger_contract_def)
    have len: "k \<le> length (le_candidates (elections L' ! (created - 1)))"
      using k(2) by (simp only: 3 length_map)
    have c: "le_candidates (elections L' ! (created - 1)) ! (k - 1) =
        ledger_candidate_of (collectCandidates form ! (k - 1))"
      using k(3) by (simp only: 3 nth_map)
    have "created \<le> length (elections L')" using 2 by simp
    from ledger_getCandidate_nth [OF 0 this k(1) len]
    show "getCandidate (ledger_contract dt) L' created k =
               Inr (k, entry_name (collectCandidates form ! (k - 1)),
                    entry_party (collectCandidates form ! (k - 1)), 0)"
      unfolding g c by (simp add: ledger_candidate_of_def)
  qed
qed

theorem sequential_candidates_witness:
  "collectCandidates demo_form =
     [\<lparr>entry_name = ''Dee'', entry_party = ''Red''\<rparr>,
      \<lparr>entry_name = ''Fay'', entry_party = ''Blue''\<rparr>]
   \<and> (\<exists>L'. AdminApp_createElection (ledger_contract 15) demo_ledger demo_form 160 =
        (L', [CreateElection ''Council'' (Finite 1000) (Finite 2000),
              AddCandidate 3 ''Dee'' ''Red'', AddCandidate 3 ''Fay'' ''Blue''], Created 3)
      \<and> getCandidate (ledger_contract 15) L' 3 1 = Inr (1, ''Dee'', ''Red'', 0)
      \<and> getCandidate (ledger_contract 15) L' 3 2 = Inr (2, ''Fay'', ''Blue'', 0))"
proof -
  define L' where "L' = fst (AdminApp_createElection (ledger_contract 15) demo_ledger demo_form 160)"
  have f: "AdminApp_createElection (ledger_contract 15) demo_ledger demo_form 160 =
      (L', [CreateElection ''Council'' (Finite 1000) (Finite 2000),
              AddCandidate 3 ''Dee'' ''Red'', AddCandidate 3 ''Fay'' ''Blue''], Created 3)"
    unfolding L'_def using demo_created by (metis prod.collapse)
  note t = sequential_candidates [of demo_form _ _ _ _ 15 demo_ledger 160,
      THEN conjunct2, THEN conjunct2, rule_format, OF f]
  have a: "\<forall>k\<in>{1..length (collectCandidates demo_form)}.
             getCandidate (ledger_contract 15) L' 3 k =
               Inr (k, entry_name (collectCandidates demo_form ! (k - 1)),
                    entry_party (collectCandidates demo_form ! (k - 1)), 0)"
    using t by blast
  have "(1::nat) \<in> {1..length (collectCandidates demo_form)}"
    "(2::nat) \<in> {1..length (collectCandidates demo_form)}"
    by (simp_all add: demo_collect)
  from a [rule_format, OF this(1)] a [rule_format, OF this(2)]
  have "getCandidate (ledger_contract 15) L' 3 1 = Inr (1, ''Dee'', ''Red'', 0)"
    "getCandidate (ledger_contract 15) L' 3 2 = Inr (2, ''Fay'', ''Blue'', 0)"
    by (simp_all add: demo_collect)
  with f demo_collect show ?thesis by blast
qed

end
